theory Spec2Isabelle
  imports Main "HOL-Library.Word"
begin

unbundle bit_operations_syntax

section \<open>Core types (include/ct\_types.h)\<close>

type_synonym u8 = "8 word"
type_synonym u32 = "32 word"
type_synonym u64 = "64 word"
type_synonym i32 = "32 word"
type_synonym i64 = "64 word"

text \<open>
  \<^verbatim>\<open>ct_fault_flags_t\<close>: seven one-bit fields (the reserved bits carry no
  information).  Signed C integers are words read with \<^const>\<open>sint\<close>.
\<close>

record ct_fault_flags =
  overflow :: bool
  underflow :: bool
  div_zero :: bool
  domain :: bool
  precision :: bool
  grad_floor :: bool
  chain_invalid :: bool

definition INT32_MAX :: i64 where "INT32_MAX = 0x7FFFFFFF"
definition INT32_MIN :: i64 where "INT32_MIN = - 0x80000000"

section \<open>DVM arithmetic primitives (primitives.c)\<close>

definition dvm_clamp32 :: "i64 \<Rightarrow> ct_fault_flags \<Rightarrow> i32 \<times> ct_fault_flags" where
  "dvm_clamp32 x faults =
     (if INT32_MAX <s x then (0x7FFFFFFF, faults\<lparr>overflow := True\<rparr>)
      else if x <s INT32_MIN then (0x80000000, faults\<lparr>underflow := True\<rparr>)
      else (ucast x, faults))"

definition dvm_add32 :: "i32 \<Rightarrow> i32 \<Rightarrow> ct_fault_flags \<Rightarrow> i32 \<times> ct_fault_flags" where
  "dvm_add32 a b faults = dvm_clamp32 (scast a + scast b) faults"

definition dvm_sub32 :: "i32 \<Rightarrow> i32 \<Rightarrow> ct_fault_flags \<Rightarrow> i32 \<times> ct_fault_flags" where
  "dvm_sub32 a b faults = dvm_clamp32 (scast a - scast b) faults"

definition dvm_mul64 :: "i32 \<Rightarrow> i32 \<Rightarrow> i64" where
  "dvm_mul64 a b = scast a * scast b"

text \<open>
  \<^verbatim>\<open>dvm_round_shift_rne\<close>.  \<^verbatim>\<open>1LL << shift\<close> is \<^term>\<open>push_bit (unat shift) 1\<close>,
  \<^verbatim>\<open>x >> shift\<close> on a signed operand is the arithmetic shift
  \<^const>\<open>signed_drop_bit\<close> (the source relies on it: ``Arithmetic shift preserves
  sign''), and the comparisons of \<^verbatim>\<open>frac\<close> with \<^verbatim>\<open>halfway\<close> are signed.
\<close>

definition dvm_round_shift_rne :: "i64 \<Rightarrow> u32 \<Rightarrow> ct_fault_flags \<Rightarrow> i32 \<times> ct_fault_flags" where
  "dvm_round_shift_rne x shift faults =
     (if 62 < shift then (0, faults\<lparr>domain := True\<rparr>)
      else if shift = 0 then dvm_clamp32 x faults
      else
        let msk = push_bit (unat shift) 1 - 1;
            halfway = push_bit (unat shift - 1) 1;
            frac = x AND msk;
            quot = signed_drop_bit (unat shift) x;
            result = (if frac <s halfway then quot
                      else if halfway <s frac then quot + 1
                      else quot + (quot AND 1))
        in dvm_clamp32 result faults)"

definition dvm_mul_q16 :: "i32 \<Rightarrow> i32 \<Rightarrow> ct_fault_flags \<Rightarrow> i32 \<times> ct_fault_flags" where
  "dvm_mul_q16 a b faults = dvm_round_shift_rne (dvm_mul64 a b) 16 faults"

definition ct_has_fault :: "ct_fault_flags \<Rightarrow> bool" where
  "ct_has_fault faults \<longleftrightarrow>
     overflow faults \<or> underflow faults \<or> div_zero faults \<or> domain faults \<or>
     precision faults \<or> grad_floor faults \<or> chain_invalid faults"

text \<open>
  The mathematical side of the rounding claim.  \<open>clamp32_int\<close> is saturation to the
  signed 32-bit range; \<open>rne_quot x s\<close> is the rounding rule written on unbounded
  integers (\<open>div\<close> and \<open>mod\<close> round towards minus infinity, so \<open>x mod 2 ^ s\<close> is the
  non-negative fraction); \<open>is_rne x s y\<close> says that \<open>y\<close> is a nearest integer to the
  exact quotient \<open>x / 2 ^ s\<close> and is even whenever the quotient lies exactly half-way.
\<close>

definition clamp32_int :: "int \<Rightarrow> int" where
  "clamp32_int y = (if 2147483647 < y then 2147483647
                    else if y < - 2147483648 then - 2147483648 else y)"

definition rne_quot :: "int \<Rightarrow> nat \<Rightarrow> int" where
  "rne_quot x s =
     (if s = 0 then x
      else if x mod 2 ^ s < 2 ^ (s - 1) then x div 2 ^ s
      else if 2 ^ (s - 1) < x mod 2 ^ s then x div 2 ^ s + 1
      else x div 2 ^ s + (x div 2 ^ s) mod 2)"

definition is_rne :: "int \<Rightarrow> nat \<Rightarrow> int \<Rightarrow> bool" where
  "is_rne x s y \<longleftrightarrow>
     2 * \<bar>y * 2 ^ s - x\<bar> \<le> 2 ^ s \<and> (2 * \<bar>y * 2 ^ s - x\<bar> = 2 ^ s \<longrightarrow> even y)"


definition f0 :: ct_fault_flags where
  "f0 = \<lparr>overflow = False, underflow = False, div_zero = False, domain = False,
         precision = False, grad_floor = False, chain_invalid = False\<rparr>"

section \<open>Counter-based PRNG (prng.c)\<close>

definition splitmix64 :: "u64 \<Rightarrow> u64" where
  "splitmix64 x0 =
     (let x1 = x0 + 0x9E3779B97F4A7C15;
          x2 = (x1 XOR drop_bit 30 x1) * 0xBF58476D1CE4E5B9;
          x3 = (x2 XOR drop_bit 27 x2) * 0x94D049BB133111EB
      in x3 XOR drop_bit 31 x3)"

definition ct_prng :: "u64 \<Rightarrow> u32 \<Rightarrow> u32 \<Rightarrow> u64" where
  "ct_prng seed epoch op_id =
     (let state0 = seed;
          state1 = state0 XOR push_bit 32 (ucast epoch);
          state2 = state1 XOR ucast op_id;
          state3 = splitmix64 state2
      in splitmix64 state3)"

text \<open>
  The rejection loop of \<^verbatim>\<open>ct_prng_uniform\<close> runs at most four times; the counter
  \<open>i\<close> of the source is the fuel counted down here.
\<close>

fun uniform_loop :: "nat \<Rightarrow> u32 \<Rightarrow> u64 \<Rightarrow> u32 \<Rightarrow> u32" where
  "uniform_loop 0 threshold rand val = val"
| "uniform_loop (Suc i) threshold rand val =
     (if threshold \<le> val
      then uniform_loop i threshold (splitmix64 rand) (ucast (splitmix64 rand AND 0xFFFFFFFF))
      else val)"

definition ct_prng_uniform :: "u64 \<Rightarrow> u32 \<Rightarrow> u32 \<Rightarrow> u32 \<Rightarrow> u32" where
  "ct_prng_uniform seed epoch op_id n =
     (if n = 0 then 0
      else if n = 1 then 0
      else
        let rand = ct_prng seed epoch op_id in
        if n \<le> 65536 then
          let threshold = (0xFFFFFFFF div n) * n;
              val = ucast (rand AND 0xFFFFFFFF)
          in uniform_loop 4 threshold rand val mod n
        else ucast (rand mod ucast n))"

text \<open>
  The mixing function as the specification displays it (no additive constant), and the
  PRF the specification builds from it.  These two follow the specification's words and
  are compared with \<^const>\<open>ct_prng\<close> below.
\<close>

definition spec_mix :: "u64 \<Rightarrow> u64" where
  "spec_mix x0 =
     (let x1 = (x0 XOR drop_bit 30 x0) * 0xBF58476D1CE4E5B9;
          x2 = (x1 XOR drop_bit 27 x1) * 0x94D049BB133111EB
      in x2 XOR drop_bit 31 x2)"

definition spec_prf :: "u64 \<Rightarrow> u32 \<Rightarrow> u32 \<Rightarrow> u64" where
  "spec_prf seed epoch op_id =
     spec_mix (spec_mix (seed XOR push_bit 32 (ucast epoch) XOR ucast op_id))"

section \<open>SHA-256\<close>

text \<open>
  Modelled from the spec: \<^verbatim>\<open>sha256.c\<close> is not among the sources (only the header
  with \<^verbatim>\<open>ct_sha256_init\<close>, \<^verbatim>\<open>ct_sha256_update\<close>, \<^verbatim>\<open>ct_sha256_final\<close> is).  The
  specification prescribes FIPS 180-4, so \<open>sha256\<close> is the FIPS 180-4 function of the
  whole message; a sequence of \<^verbatim>\<open>update\<close> calls hashes the concatenation of its
  chunks.  The round constants and the initial state are written in decimal.  The 32-bit
  words of the compression function are kept as integers in
  \<open>[0, 2\<^sup>3\<^sup>2)\<close> with the reduction written out (\<open>m32\<close>).
\<close>

definition m32 :: "int \<Rightarrow> int" where
  "m32 x = x mod 4294967296"

definition rotr32 :: "nat \<Rightarrow> int \<Rightarrow> int" where
  "rotr32 n x = x div 2 ^ n + (x mod 2 ^ n) * 2 ^ (32 - n)"

definition sha_ch :: "int \<Rightarrow> int \<Rightarrow> int \<Rightarrow> int" where
  "sha_ch x y z = (x AND y) XOR ((4294967295 - x) AND z)"

definition sha_maj :: "int \<Rightarrow> int \<Rightarrow> int \<Rightarrow> int" where
  "sha_maj x y z = (x AND y) XOR (x AND z) XOR (y AND z)"

definition sha_ep0 :: "int \<Rightarrow> int" where
  "sha_ep0 x = rotr32 2 x XOR rotr32 13 x XOR rotr32 22 x"

definition sha_ep1 :: "int \<Rightarrow> int" where
  "sha_ep1 x = rotr32 6 x XOR rotr32 11 x XOR rotr32 25 x"

definition sha_sig0 :: "int \<Rightarrow> int" where
  "sha_sig0 x = rotr32 7 x XOR rotr32 18 x XOR (x div 8)"

definition sha_sig1 :: "int \<Rightarrow> int" where
  "sha_sig1 x = rotr32 17 x XOR rotr32 19 x XOR (x div 1024)"

definition sha_k :: "int list" where
  "sha_k =
    [1116352408, 1899447441, 3049323471, 3921009573, 961987163, 1508970993,
     2453635748, 2870763221, 3624381080, 310598401, 607225278, 1426881987,
     1925078388, 2162078206, 2614888103, 3248222580, 3835390401, 4022224774,
     264347078, 604807628, 770255983, 1249150122, 1555081692, 1996064986,
     2554220882, 2821834349, 2952996808, 3210313671, 3336571891, 3584528711,
     113926993, 338241895, 666307205, 773529912, 1294757372, 1396182291,
     1695183700, 1986661051, 2177026350, 2456956037, 2730485921, 2820302411,
     3259730800, 3345764771, 3516065817, 3600352804, 4094571909, 275423344,
     430227734, 506948616, 659060556, 883997877, 958139571, 1322822218,
     1537002063, 1747873779, 1955562222, 2024104815, 2227730452, 2361852424,
     2428436474, 2756734187, 3204031479, 3329325298]"

definition sha_h0 :: "int list" where
  "sha_h0 =
    [1779033703, 3144134277, 1013904242, 2773480762,
     1359893119, 2600822924, 528734635, 1541459225]"

fun be32 :: "int list \<Rightarrow> int list" where
  "be32 (a # b # c # d # r) = (a * 16777216 + b * 65536 + c * 256 + d) # be32 r"
| "be32 _ = []"

fun sha_sched :: "nat \<Rightarrow> int list \<Rightarrow> int list"
  and sha_next :: "nat \<Rightarrow> int \<Rightarrow> int list \<Rightarrow> int list" where
  "sha_sched 0 w = []"
| "sha_sched (Suc n) w =
     sha_next n (m32 (sha_sig1 (w ! 14) + w ! 9 + sha_sig0 (w ! 1) + w ! 0)) (tl w)"
| "sha_next n x w = x # sha_sched n (w @ [x])"

fun sha_round2 :: "int \<Rightarrow> int \<Rightarrow> int list \<Rightarrow> int list" where
  "sha_round2 t1 t2 [a, b, c, d, e, f, g, h] =
     [m32 (t1 + t2), a, b, c, m32 (d + t1), e, f, g]"
| "sha_round2 t1 t2 s = s"

fun sha_round :: "int list \<Rightarrow> int \<times> int \<Rightarrow> int list" where
  "sha_round s (k, w) =
     sha_round2 (s ! 7 + sha_ep1 (s ! 4) + sha_ch (s ! 4) (s ! 5) (s ! 6) + k + w)
                (sha_ep0 (s ! 0) + sha_maj (s ! 0) (s ! 1) (s ! 2)) s"

definition sha_compress :: "int list \<Rightarrow> int list \<Rightarrow> int list" where
  "sha_compress st blk =
     map m32 (map2 (+) st (foldl sha_round st (zip sha_k (be32 blk @ sha_sched 48 (be32 blk)))))"

definition sha_pad :: "int list \<Rightarrow> int list" where
  "sha_pad m =
     m @ [128] @ replicate ((55 + 64 - length m mod 64) mod 64) 0 @
     map (\<lambda>i. (int (8 * length m) div 256 ^ i) mod 256) [7, 6, 5, 4, 3, 2, 1, 0]"

fun sha_blocks :: "nat \<Rightarrow> int list \<Rightarrow> int list \<Rightarrow> int list" where
  "sha_blocks 0 st m = st"
| "sha_blocks (Suc n) st m = sha_blocks n (sha_compress st (take 64 m)) (drop 64 m)"

definition word_bytes_be :: "int \<Rightarrow> int list" where
  "word_bytes_be x = [x div 16777216, (x div 65536) mod 256, (x div 256) mod 256, x mod 256]"

definition sha256_int :: "int list \<Rightarrow> int list" where
  "sha256_int m =
     concat (map word_bytes_be (sha_blocks (length (sha_pad m) div 64) sha_h0 (sha_pad m)))"

definition sha256 :: "u8 list \<Rightarrow> u8 list" where
  "sha256 m = map word_of_int (sha256_int (map uint m))"


section \<open>Samples, hashes and byte serialisation\<close>

text \<open>
  A \<^verbatim>\<open>ct_hash_t\<close> is 32 bytes.  Arrays that the caller supplies through a pointer
  (\<^verbatim>\<open>data\<close>, \<^verbatim>\<open>dims\<close>, the sample and hash arrays of a batch, the leaves of a tree)
  are maps from index to cell: the code never sees their capacity, and cell \<open>i\<close> is what
  \<^verbatim>\<open>p[i]\<close> reads or writes.  The \<open>data\<close> field stands for the buffer behind the pointer,
  so a shallow copy of a sample (a copy of the pointer) is a copy of the record, and a
  write through either copy is an update of the one buffer; distinct samples are taken to
  own disjoint buffers.
\<close>

type_synonym ct_hash = "u8 list"

record ct_sample =
  version :: u32
  dtype :: u32
  ndims :: u32
  dims :: "nat \<Rightarrow> u32"
  total_elements :: u32
  data :: "nat \<Rightarrow> i32"

definition CT_MAX_DIMS :: nat where "CT_MAX_DIMS = 4"

definition zero_hash :: ct_hash where
  "zero_hash = replicate 32 0"

text \<open>\<^verbatim>\<open>memset(&sample, 0, sizeof(ct_sample_t))\<close>: every field zero, a null data pointer.\<close>

definition zero_sample :: ct_sample where
  "zero_sample = \<lparr>version = 0, dtype = 0, ndims = 0, dims = (\<lambda>_. 0),
                   total_elements = 0, data = (\<lambda>_. 0)\<rparr>"

definition le32 :: "32 word \<Rightarrow> u8 list" where
  "le32 v = [ucast (v AND 0xFF), ucast (drop_bit 8 v AND 0xFF),
             ucast (drop_bit 16 v AND 0xFF), ucast (drop_bit 24 v AND 0xFF)]"

definition le64 :: "u64 \<Rightarrow> u8 list" where
  "le64 v = [ucast (v AND 0xFF), ucast (drop_bit 8 v AND 0xFF),
             ucast (drop_bit 16 v AND 0xFF), ucast (drop_bit 24 v AND 0xFF),
             ucast (drop_bit 32 v AND 0xFF), ucast (drop_bit 40 v AND 0xFF),
             ucast (drop_bit 48 v AND 0xFF), ucast (drop_bit 56 v AND 0xFF)]"

section \<open>Merkle tree (merkle.c)\<close>

definition CT_DOMAIN_LEAF :: u8 where "CT_DOMAIN_LEAF = 0x00"
definition CT_DOMAIN_INTERNAL :: u8 where "CT_DOMAIN_INTERNAL = 0x01"

definition ct_hash_sample :: "ct_sample \<Rightarrow> ct_hash" where
  "ct_hash_sample sample =
     sha256 ([CT_DOMAIN_LEAF] @
       le32 (version sample) @ le32 (dtype sample) @ le32 (ndims sample) @
       concat (map (\<lambda>i. le32 (if of_nat i < ndims sample then dims sample i else 0))
                   [0..<CT_MAX_DIMS]) @
       concat (map (\<lambda>i. le32 (data sample i)) [0..<unat (total_elements sample)]))"

definition ct_hash_internal :: "ct_hash \<Rightarrow> ct_hash \<Rightarrow> ct_hash" where
  "ct_hash_internal left right = sha256 ([CT_DOMAIN_INTERNAL] @ left @ right)"

text \<open>
  \<^verbatim>\<open>ct_merkle_root\<close> works in a local array \<^verbatim>\<open>ct_hash_t tree[2048]\<close> that is not
  initialised; \<open>scratch\<close> is its content on entry.  Only the first 1024 leaves are copied
  into it.  An access to \<^verbatim>\<open>tree[j]\<close> with \<open>j \<ge> 2048\<close> is outside the array: the model
  stops with \<open>None\<close> there.  Counters are \<^verbatim>\<open>uint32_t\<close>; \<open>(current_level + 1) / 2\<close> is
  written with its wrap-around.
\<close>

definition TREE_SLOTS :: nat where "TREE_SLOTS = 2048"
definition LEAF_COPY_LIMIT :: nat where "LEAF_COPY_LIMIT = 1024"

definition copy_leaves :: "(nat \<Rightarrow> ct_hash) \<Rightarrow> (nat \<Rightarrow> ct_hash) \<Rightarrow> nat \<Rightarrow> nat \<Rightarrow> ct_hash" where
  "copy_leaves scratch leaves count =
     fold (\<lambda>i tree. tree(i := leaves i)) [0..<min count LEAF_COPY_LIMIT] scratch"

definition level_step :: "nat \<Rightarrow> nat \<Rightarrow> (nat \<Rightarrow> ct_hash) \<Rightarrow> (nat \<Rightarrow> ct_hash) option" where
  "level_step current_level i tree =
     (let left_idx = i * 2; right_idx = left_idx + 1 in
      if right_idx < current_level then
        (if right_idx < TREE_SLOTS
         then Some (tree(i := ct_hash_internal (tree left_idx) (tree right_idx)))
         else None)
      else
        (if left_idx < TREE_SLOTS then Some (tree(i := tree left_idx)) else None))"

fun level_loop :: "nat \<Rightarrow> nat list \<Rightarrow> (nat \<Rightarrow> ct_hash) \<Rightarrow> (nat \<Rightarrow> ct_hash) option" where
  "level_loop current_level [] tree = Some tree"
| "level_loop current_level (i # is) tree =
     (case level_step current_level i tree of
        None \<Rightarrow> None
      | Some tree' \<Rightarrow> level_loop current_level is tree')"

function build_tree :: "nat \<Rightarrow> (nat \<Rightarrow> ct_hash) \<Rightarrow> ct_hash option" where
  "build_tree current_level tree =
     (if 1 < current_level then
        (let next_level = ((current_level + 1) mod 2 ^ 32) div 2 in
         case level_loop current_level [0..<next_level] tree of
           None \<Rightarrow> None
         | Some tree' \<Rightarrow> build_tree next_level tree')
      else Some (tree 0))"
  by pat_completeness auto
termination
proof (relation "measure fst")
  show "wf (measure (fst :: nat \<times> (nat \<Rightarrow> ct_hash) \<Rightarrow> nat))" by simp
next
  fix current_level :: nat and tree :: "nat \<Rightarrow> ct_hash" and x xa
  assume a: "1 < current_level" and x: "x = (current_level + 1) mod 2 ^ 32 div 2"
  have "(current_level + 1) mod 2 ^ 32 \<le> current_level + 1" by simp
  then have "(current_level + 1) mod 2 ^ 32 div 2 \<le> (current_level + 1) div 2"
    by (rule div_le_mono)
  also have "\<dots> < current_level" using a by simp
  finally show "((x, xa), (current_level, tree)) \<in> measure fst"
    using x by simp
qed

declare build_tree.simps [simp del]

text \<open>
  What one pass over a level of \<open>cur\<close> nodes leaves at position \<open>j\<close> of the next
  level: the hash of the pair \<open>(2j, 2j + 1)\<close>, or node \<open>2j\<close> itself when it has no
  right neighbour.
\<close>

definition next_node :: "nat \<Rightarrow> (nat \<Rightarrow> ct_hash) \<Rightarrow> nat \<Rightarrow> ct_hash" where
  "next_node cur tree j =
     (if 2 * j + 1 < cur then ct_hash_internal (tree (2 * j)) (tree (2 * j + 1)) else tree (2 * j))"

definition ct_merkle_root :: "(nat \<Rightarrow> ct_hash) \<Rightarrow> (nat \<Rightarrow> ct_hash) \<Rightarrow> u32 \<Rightarrow> ct_hash option" where
  "ct_merkle_root scratch leaves count =
     (if count = 0 then Some zero_hash
      else if count = 1 then Some (leaves 0)
      else build_tree (unat count) (copy_leaves scratch leaves (unat count)))"

text \<open>
  The Merkle root in the specification's words, on the list of leaves: all-zero digest for
  no leaf, the leaf itself for one, otherwise adjacent nodes are paired level by level and
  the last node of an odd level is promoted unchanged.
\<close>

fun pair_level :: "ct_hash list \<Rightarrow> ct_hash list" where
  "pair_level (a # b # r) = ct_hash_internal a b # pair_level r"
| "pair_level [a] = [a]"
| "pair_level [] = []"

function merkle_spec :: "ct_hash list \<Rightarrow> ct_hash" where
  "merkle_spec [] = zero_hash"
| "merkle_spec [a] = a"
| "merkle_spec (a # b # r) = merkle_spec (pair_level (a # b # r))"
  by pat_completeness auto
termination
proof (relation "measure length")
  show "wf (measure (length :: ct_hash list \<Rightarrow> nat))" by simp
next
  fix a b :: ct_hash and r :: "ct_hash list"
  have "length (pair_level xs) \<le> length xs" for xs
    by (induction xs rule: pair_level.induct) simp_all
  then have "length (pair_level r) \<le> length r" .
  then show "(pair_level (a # b # r), a # b # r) \<in> measure length" by simp
qed


section \<open>Feistel permutation (shuffle.c)\<close>

function ceil_log2_loop :: "u32 \<Rightarrow> u32 \<Rightarrow> u32" where
  "ceil_log2_loop result m =
     (if 0 < m then ceil_log2_loop (result + 1) (drop_bit 1 m) else result)"
  by pat_completeness auto
termination
proof (relation "measure (\<lambda>(result, m). unat m)")
  show "wf (measure (\<lambda>(result :: u32, m :: u32). unat m))" by simp
next
  fix result m :: u32
  assume "0 < m"
  then have "0 < unat m" by (simp add: word_less_nat_alt)
  then have "unat m div 2 < unat m" by simp
  then show "((result + 1, drop_bit 1 m), (result, m)) \<in> measure (\<lambda>(result, m). unat m)"
    by (simp add: unat_drop_bit_eq drop_bit_eq_div unat_div)
qed

declare ceil_log2_loop.simps [simp del]

definition ceil_log2 :: "u32 \<Rightarrow> u32" where
  "ceil_log2 n = (if n \<le> 1 then 0 else ceil_log2_loop 0 (n - 1))"

definition feistel_round :: "u32 \<Rightarrow> u64 \<Rightarrow> u32 \<Rightarrow> u8 \<Rightarrow> u32" where
  "feistel_round R seed epoch round_num =
     (let hash = sha256 (le64 seed @ le32 epoch @ le32 R @ [round_num])
      in ucast (hash ! 0) OR push_bit 8 (ucast (hash ! 1)) OR
         push_bit 16 (ucast (hash ! 2)) OR push_bit 24 (ucast (hash ! 3)))"

text \<open>The four rounds, on the pair \<open>(L, R)\<close>; \<open>round\<close> runs through 0, 1, 2, 3.\<close>

definition feistel_step :: "u64 \<Rightarrow> u32 \<Rightarrow> u32 \<Rightarrow> u8 \<Rightarrow> u32 \<times> u32 \<Rightarrow> u32 \<times> u32" where
  "feistel_step seed epoch half_mask round = (\<lambda>(L, R).
     let F = feistel_round R seed epoch round AND half_mask;
         new_L = R;
         new_R = L XOR F
     in (new_L, new_R))"

definition feistel_network :: "u64 \<Rightarrow> u32 \<Rightarrow> nat \<Rightarrow> u32 \<Rightarrow> u32 \<Rightarrow> u32" where
  "feistel_network seed epoch half_bits half_mask i =
     (let L = i AND half_mask;
          R = drop_bit half_bits i AND half_mask;
          (L', R') = fold (feistel_step seed epoch half_mask) [0, 1, 2, 3] (L, R)
      in push_bit half_bits R' OR L')"

text \<open>
  The \<^verbatim>\<open>while (1)\<close> loop of \<^verbatim>\<open>ct_permute_index\<close>.  The first argument is
  \<open>max_iterations - iterations\<close>; with none left the loop gives up (\<open>None\<close>) and the
  caller returns \<open>index % N\<close>.
\<close>

fun cycle_walk :: "nat \<Rightarrow> u64 \<Rightarrow> u32 \<Rightarrow> nat \<Rightarrow> u32 \<Rightarrow> u32 \<Rightarrow> u32 \<Rightarrow> u32 option" where
  "cycle_walk 0 seed epoch half_bits half_mask N i = None"
| "cycle_walk (Suc left) seed epoch half_bits half_mask N i =
     (let i' = feistel_network seed epoch half_bits half_mask i
      in if i' < N then Some i' else cycle_walk left seed epoch half_bits half_mask N i')"

text \<open>
  For \<open>N > 2\<^sup>3\<^sup>1\<close> the source evaluates \<^verbatim>\<open>1U << 32\<close>, which C leaves undefined; the
  model takes the shifted-out value 0 there, and the statements about the permutation
  below are for \<open>N \<le> 2\<^sup>3\<^sup>1\<close>.
\<close>

definition walk_index :: "u32 \<Rightarrow> u32 \<Rightarrow> u64 \<Rightarrow> u32 \<Rightarrow> u32 option" where
  "walk_index index N seed epoch =
     (let k = ceil_log2 N;
          range = (push_bit (unat k) 1 :: u32);
          half_bits = (k + 1) div 2;
          half_mask = push_bit (unat half_bits) 1 - 1;
          max_iterations = range
      in cycle_walk (unat max_iterations) seed epoch (unat half_bits) half_mask N index)"

definition ct_permute_index :: "u32 \<Rightarrow> u32 \<Rightarrow> u64 \<Rightarrow> u32 \<Rightarrow> u32" where
  "ct_permute_index index N seed epoch =
     (if N \<le> 1 then 0
      else if N \<le> index then index mod N
      else case walk_index index N seed epoch of
             Some i \<Rightarrow> i
           | None \<Rightarrow> index mod N)"

section \<open>Batches (batch.c)\<close>

record ct_batch =
  samples :: "nat \<Rightarrow> ct_sample"
  sample_hashes :: "nat \<Rightarrow> ct_hash"
  batch_size :: u32
  batch_index :: u32
  batch_hash :: ct_hash

record ct_dataset =
  samples_ds :: "nat \<Rightarrow> ct_sample"
  num_samples :: u32
  dataset_hash :: ct_hash

definition ct_hash_batch :: "(nat \<Rightarrow> ct_hash) \<Rightarrow> ct_batch \<Rightarrow> ct_hash option" where
  "ct_hash_batch scratch batch = ct_merkle_root scratch (sample_hashes batch) (batch_size batch)"

definition fill_slot :: "ct_dataset \<Rightarrow> u32 \<Rightarrow> u32 \<Rightarrow> u64 \<Rightarrow> nat \<Rightarrow> ct_batch \<Rightarrow> ct_batch" where
  "fill_slot dataset start_idx epoch seed i batch =
     (let global_idx = start_idx + of_nat i;
          shuffled_idx = ct_permute_index global_idx (num_samples dataset) seed epoch;
          batch1 = batch\<lparr>samples := (samples batch)(i := samples_ds dataset (unat shuffled_idx))\<rparr>
      in batch1\<lparr>sample_hashes := (sample_hashes batch1)(i := ct_hash_sample (samples batch1 i))\<rparr>)"

definition pad_slot :: "nat \<Rightarrow> ct_batch \<Rightarrow> ct_batch" where
  "pad_slot i batch =
     batch\<lparr>samples := (samples batch)(i := zero_sample),
           sample_hashes := (sample_hashes batch)(i := zero_hash)\<rparr>"

definition ct_batch_fill ::
  "(nat \<Rightarrow> ct_hash) \<Rightarrow> ct_batch \<Rightarrow> ct_dataset \<Rightarrow> u32 \<Rightarrow> u32 \<Rightarrow> u64 \<Rightarrow> ct_batch option" where
  "ct_batch_fill scratch batch dataset batch_idx epoch seed =
     (let batch1 = batch\<lparr>batch_index := batch_idx\<rparr>;
          start_idx = batch_idx * batch_size batch1;
          samples_in_batch =
            (if num_samples dataset < start_idx + batch_size batch1
             then num_samples dataset - start_idx else batch_size batch1);
          batch2 = fold (fill_slot dataset start_idx epoch seed)
                     [0..<unat samples_in_batch] batch1;
          batch3 = fold pad_slot [unat samples_in_batch..<unat (batch_size batch2)] batch2
      in case ct_hash_batch scratch batch3 of
           None \<Rightarrow> None
         | Some h \<Rightarrow> Some (batch3\<lparr>batch_hash := h\<rparr>))"

text \<open>\<^verbatim>\<open>ct_batch_verify\<close> returns an \<^verbatim>\<open>int\<close>, 1 or 0.\<close>

definition ct_batch_verify :: "(nat \<Rightarrow> ct_hash) \<Rightarrow> ct_batch \<Rightarrow> int option" where
  "ct_batch_verify scratch batch =
     (case ct_hash_batch scratch batch of
        None \<Rightarrow> None
      | Some computed_hash \<Rightarrow> Some (if computed_hash = batch_hash batch then 1 else 0))"


section \<open>Normalisation (normalize.c)\<close>






section \<open>Augmentation (augment.c)\<close>

record ct_augment_flags =
  h_flip :: bool
  v_flip :: bool
  random_crop :: bool
  gaussian_noise :: bool

text \<open>
  The fields \<^verbatim>\<open>seed\<close> and \<^verbatim>\<open>epoch\<close> of \<^verbatim>\<open>ct_augment_ctx_t\<close> are \<open>aug_seed\<close> and
  \<open>aug_epoch\<close> here; the static functions \<^verbatim>\<open>random_crop\<close> and \<^verbatim>\<open>gaussian_noise\<close>,
  whose names the flags already carry, are \<open>random_crop_op\<close> and \<open>gaussian_noise_op\<close>.
\<close>

record ct_augment_ctx =
  aug_seed :: u64
  aug_epoch :: u32
  flags :: ct_augment_flags
  crop_width :: u32
  crop_height :: u32
  noise_std :: i32

text \<open>
  A call of \<^verbatim>\<open>ct_prng\<close> is recorded as its argument triple.  The functions that draw
  return the list of their calls, in order, next to their result.
\<close>

type_synonym prf_call = "u64 \<times> u32 \<times> u32"

definition FIXED_HALF :: i32 where "FIXED_HALF = 32768"

definition flip_cell :: "u32 \<Rightarrow> nat \<Rightarrow> nat \<Rightarrow> ct_sample \<Rightarrow> ct_sample" where
  "flip_cell width row col sample =
     (let left_idx = unat (of_nat row * width + of_nat col);
          right_idx = unat (of_nat row * width + (width - 1 - of_nat col));
          temp = data sample left_idx;
          d1 = (data sample)(left_idx := data sample right_idx);
          d2 = d1(right_idx := temp)
      in sample\<lparr>data := d2\<rparr>)"

definition horizontal_flip :: "ct_sample \<Rightarrow> u32 \<Rightarrow> u32 \<Rightarrow> ct_sample" where
  "horizontal_flip sample width height =
     fold (\<lambda>row. fold (flip_cell width row) [0..<unat (width div 2)]) [0..<unat height] sample"

text \<open>
  \<^verbatim>\<open>ct_prng_uniform\<close> calls \<^verbatim>\<open>ct_prng\<close> once unless \<open>n \<le> 1\<close>, where it returns before
  drawing; its rejection loop re-mixes with \<^verbatim>\<open>splitmix64\<close> and draws nothing more.
\<close>

definition ct_prng_uniform_calls :: "u64 \<Rightarrow> u32 \<Rightarrow> u32 \<Rightarrow> u32 \<Rightarrow> prf_call list" where
  "ct_prng_uniform_calls seed epoch op_id n =
     (if n = 0 then [] else if n = 1 then [] else [(seed, epoch, op_id)])"

definition crop_cell :: "u32 \<Rightarrow> u32 \<Rightarrow> u32 \<Rightarrow> u32 \<Rightarrow> nat \<Rightarrow> nat \<Rightarrow> ct_sample \<Rightarrow> ct_sample" where
  "crop_cell src_width crop_w crop_x crop_y y x sample =
     (let src_idx = unat ((crop_y + of_nat y) * src_width + (crop_x + of_nat x));
          dst_idx = unat (of_nat y * crop_w + of_nat x)
      in sample\<lparr>data := (data sample)(dst_idx := data sample src_idx)\<rparr>)"

text \<open>
  \<^verbatim>\<open>random_crop\<close> is called with \<^verbatim>\<open>input\<close> a struct copy of \<^verbatim>\<open>output\<close>: both point
  to the same buffer, so every cell copy reads and writes the one \<open>data\<close>.
\<close>

definition random_crop_op ::
  "ct_sample \<Rightarrow> u32 \<Rightarrow> u32 \<Rightarrow> u32 \<Rightarrow> u32 \<Rightarrow> u64 \<Rightarrow> u32 \<Rightarrow> u32 \<Rightarrow> ct_sample \<times> prf_call list" where
  "random_crop_op sample src_width src_height crop_w crop_h seed epoch sample_idx =
     (let max_x = src_width - crop_w;
          max_y = src_height - crop_h;
          op_id_x = push_bit 16 sample_idx OR 0x0001;
          crop_x = ct_prng_uniform seed epoch op_id_x (max_x + 1);
          op_id_y = push_bit 16 sample_idx OR 0x0002;
          crop_y = ct_prng_uniform seed epoch op_id_y (max_y + 1);
          s1 = fold (\<lambda>y. fold (crop_cell src_width crop_w crop_x crop_y y) [0..<unat crop_w])
                 [0..<unat crop_h] sample
      in (s1\<lparr>dims := (dims s1)(0 := crop_h, 1 := crop_w), total_elements := crop_w * crop_h\<rparr>,
          ct_prng_uniform_calls seed epoch op_id_x (max_x + 1) @
          ct_prng_uniform_calls seed epoch op_id_y (max_y + 1)))"

definition noise_value :: "i32 \<Rightarrow> u64 \<Rightarrow> ct_fault_flags \<Rightarrow> i32 \<times> ct_fault_flags" where
  "noise_value std u faults =
     (let u_fixed = (ucast (drop_bit 32 u AND 0xFFFF0000) :: i32);
          (centered, faults1) = dvm_sub32 u_fixed FIXED_HALF faults;
          (noise, faults2) = dvm_mul_q16 std centered faults1
      in dvm_add32 noise noise faults2)"

definition noise_pair ::
  "i32 \<Rightarrow> u64 \<Rightarrow> u32 \<Rightarrow> u32 \<Rightarrow> nat \<Rightarrow>
   ct_sample \<times> ct_fault_flags \<times> prf_call list \<Rightarrow> ct_sample \<times> ct_fault_flags \<times> prf_call list" where
  "noise_pair std seed epoch sample_idx j = (\<lambda>(sample, faults, calls).
     let i = (of_nat (2 * j) :: u32);
         op_id_1 = push_bit 16 sample_idx OR (0x1000 + i);
         op_id_2 = push_bit 16 sample_idx OR (0x1000 + i + 1);
         u1 = ct_prng seed epoch op_id_1;
         u2 = ct_prng seed epoch op_id_2;
         (noise_1, faults1) = noise_value std u1 faults;
         (noise_2, faults2) = noise_value std u2 faults1;
         (v1, faults3) = dvm_add32 (data sample (unat i)) noise_1 faults2;
         s1 = sample\<lparr>data := (data sample)(unat i := v1)\<rparr>;
         calls1 = calls @ [(seed, epoch, op_id_1), (seed, epoch, op_id_2)]
     in if i + 1 < total_elements sample then
          let (v2, faults4) = dvm_add32 (data s1 (unat (i + 1))) noise_2 faults3
          in (s1\<lparr>data := (data s1)(unat (i + 1) := v2)\<rparr>, faults4, calls1)
        else (s1, faults3, calls1))"

text \<open>
  The loop of \<^verbatim>\<open>gaussian_noise\<close> steps its \<^verbatim>\<open>uint32_t\<close> counter by two while it is below
  \<^verbatim>\<open>total_elements\<close>.  With \<open>total_elements = 2\<^sup>3\<^sup>2 - 1\<close> the counter wraps from
  \<open>2\<^sup>3\<^sup>2 - 2\<close> to 0 and the loop never ends: \<open>None\<close>.  Otherwise it visits
  \<open>i = 0, 2, 4, \<dots>\<close> below \<open>total_elements\<close>.
\<close>

definition gaussian_noise_op ::
  "ct_sample \<Rightarrow> i32 \<Rightarrow> u64 \<Rightarrow> u32 \<Rightarrow> u32 \<Rightarrow> ct_fault_flags \<Rightarrow>
   (ct_sample \<times> ct_fault_flags \<times> prf_call list) option" where
  "gaussian_noise_op sample std seed epoch sample_idx faults =
     (if total_elements sample = 0xFFFFFFFF then None
      else Some (fold (noise_pair std seed epoch sample_idx)
                   [0..<(unat (total_elements sample) + 1) div 2] (sample, faults, [])))"

definition ct_augment_sample ::
  "ct_augment_ctx \<Rightarrow> ct_sample \<Rightarrow> u32 \<Rightarrow> ct_fault_flags \<Rightarrow>
   (ct_sample \<times> ct_fault_flags \<times> prf_call list) option" where
  "ct_augment_sample ctx input sample_idx faults =
     (let output = input;
          height = dims input 0;
          width = (if 1 < ndims input then dims input 1 else 1);
          (out1, calls1) =
            (if h_flip (flags ctx) then
               let op_id = push_bit 16 sample_idx OR 0x0100;
                   rand = ct_prng (aug_seed ctx) (aug_epoch ctx) op_id
               in (if rand AND 0x1 = 1 then horizontal_flip output width height else output,
                   [(aug_seed ctx, aug_epoch ctx, op_id)])
             else (output, []));
          (out2, calls2) =
            (if random_crop (flags ctx) \<and> 0 < crop_height ctx \<and> 0 < crop_width ctx then
               random_crop_op out1 width height (crop_width ctx) (crop_height ctx)
                 (aug_seed ctx) (aug_epoch ctx) sample_idx
             else (out1, []))
      in if gaussian_noise (flags ctx) \<and> 0 <s noise_std ctx then
           (case gaussian_noise_op out2 (noise_std ctx) (aug_seed ctx) (aug_epoch ctx)
                   sample_idx faults of
              None \<Rightarrow> None
            | Some (out3, faults3, calls3) \<Rightarrow> Some (out3, faults3, calls1 @ calls2 @ calls3))
         else Some (out2, faults, calls1 @ calls2))"



text \<open>
  The three operations of \<^verbatim>\<open>ct_augment_sample\<close> as stages, each the identity (with no
  draw) when its guard fails, and their composition in the order of the source.
\<close>

definition hflip_stage ::
  "ct_augment_ctx \<Rightarrow> u32 \<Rightarrow> u32 \<Rightarrow> u32 \<Rightarrow> ct_sample \<Rightarrow> ct_sample \<times> prf_call list" where
  "hflip_stage ctx sample_idx width height s =
     (if h_flip (flags ctx) then
        (if ct_prng (aug_seed ctx) (aug_epoch ctx) (push_bit 16 sample_idx OR 0x0100) AND 0x1 = 1
         then horizontal_flip s width height else s,
         [(aug_seed ctx, aug_epoch ctx, push_bit 16 sample_idx OR 0x0100)])
      else (s, []))"

definition crop_stage ::
  "ct_augment_ctx \<Rightarrow> u32 \<Rightarrow> u32 \<Rightarrow> u32 \<Rightarrow> ct_sample \<Rightarrow> ct_sample \<times> prf_call list" where
  "crop_stage ctx sample_idx width height s =
     (if random_crop (flags ctx) \<and> 0 < crop_height ctx \<and> 0 < crop_width ctx
      then random_crop_op s width height (crop_width ctx) (crop_height ctx)
             (aug_seed ctx) (aug_epoch ctx) sample_idx
      else (s, []))"

definition noise_stage ::
  "ct_augment_ctx \<Rightarrow> u32 \<Rightarrow> ct_fault_flags \<Rightarrow> ct_sample \<Rightarrow>
   (ct_sample \<times> ct_fault_flags \<times> prf_call list) option" where
  "noise_stage ctx sample_idx faults s =
     (if gaussian_noise (flags ctx) \<and> 0 <s noise_std ctx
      then gaussian_noise_op s (noise_std ctx) (aug_seed ctx) (aug_epoch ctx) sample_idx faults
      else Some (s, faults, []))"

definition staged_augment ::
  "ct_augment_ctx \<Rightarrow> ct_sample \<Rightarrow> u32 \<Rightarrow> ct_fault_flags \<Rightarrow>
   (ct_sample \<times> ct_fault_flags \<times> prf_call list) option" where
  "staged_augment ctx input sample_idx faults =
     (let height = dims input 0;
          width = (if 1 < ndims input then dims input 1 else 1);
          r1 = hflip_stage ctx sample_idx width height input;
          r2 = crop_stage ctx sample_idx width height (fst r1)
      in map_option (\<lambda>(s3, faults3, calls3). (s3, faults3, snd r1 @ snd r2 @ calls3))
           (noise_stage ctx sample_idx faults (fst r2)))"

text \<open>
  The order the specification states, on the operations the source has: crop first, then
  the horizontal flip of the cropped image, then noise.  Vertical flip and brightness are
  not operations of the source; in the specification they are the identity when disabled.
\<close>

definition claimed_order_augment ::
  "ct_augment_ctx \<Rightarrow> ct_sample \<Rightarrow> u32 \<Rightarrow> ct_fault_flags \<Rightarrow>
   (ct_sample \<times> ct_fault_flags \<times> prf_call list) option" where
  "claimed_order_augment ctx input sample_idx faults =
     (let height = dims input 0;
          width = (if 1 < ndims input then dims input 1 else 1);
          r1 = crop_stage ctx sample_idx width height input;
          r2 = hflip_stage ctx sample_idx
                 (if 1 < ndims (fst r1) then dims (fst r1) 1 else 1) (dims (fst r1) 0) (fst r1)
      in map_option (\<lambda>(s3, faults3, calls3). (s3, faults3, snd r1 @ snd r2 @ calls3))
           (noise_stage ctx sample_idx faults (fst r2)))"


section \<open>Concrete inputs\<close>

definition ex_sample :: ct_sample where
  "ex_sample = \<lparr>version = 1, dtype = 0, ndims = 1, dims = (\<lambda>i. if i = 0 then 2 else 0),
                 total_elements = 2,
                 data = (\<lambda>i. if i = 0 then 65536 else if i = 1 then 131072 else 0)\<rparr>"


definition no_flags :: ct_augment_flags where
  "no_flags = \<lparr>h_flip = False, v_flip = False, random_crop = False, gaussian_noise = False\<rparr>"


definition ex_image :: ct_sample where
  "ex_image = \<lparr>version = 1, dtype = 0, ndims = 2,
                dims = (\<lambda>i. if i = 0 then 1 else if i = 1 then 2 else 0),
                total_elements = 2,
                data = (\<lambda>i. if i = 0 then 10 else if i = 1 then 20 else 0)\<rparr>"

definition ex_flip_crop_ctx :: ct_augment_ctx where
  "ex_flip_crop_ctx =
     \<lparr>aug_seed = 4, aug_epoch = 0,
      flags = \<lparr>h_flip = True, v_flip = False, random_crop = True, gaussian_noise = False\<rparr>,
      crop_width = 1, crop_height = 1, noise_std = 0\<rparr>"

definition ex_flip_ctx :: ct_augment_ctx where
  "ex_flip_ctx =
     \<lparr>aug_seed = 4, aug_epoch = 0,
      flags = \<lparr>h_flip = True, v_flip = False, random_crop = False, gaussian_noise = False\<rparr>,
      crop_width = 0, crop_height = 0, noise_std = 0\<rparr>"

definition ex_off_ctx :: ct_augment_ctx where
  "ex_off_ctx = \<lparr>aug_seed = 4, aug_epoch = 0, flags = no_flags,
                  crop_width = 0, crop_height = 0, noise_std = 0\<rparr>"

text \<open>
  The draws of \<^verbatim>\<open>ct_augment_sample\<close> as a function of the context, the sample's shape and
  the sample index: one for an enabled flip, one per non-trivial range for an enabled
  crop, two per pair of elements for enabled noise, none for a disabled operation.
\<close>

definition noise_pair_calls :: "u64 \<Rightarrow> u32 \<Rightarrow> u32 \<Rightarrow> nat \<Rightarrow> prf_call list" where
  "noise_pair_calls seed epoch sample_idx j =
     [(seed, epoch, push_bit 16 sample_idx OR (0x1000 + of_nat (2 * j))),
      (seed, epoch, push_bit 16 sample_idx OR (0x1000 + of_nat (2 * j) + 1))]"

definition augment_calls :: "ct_augment_ctx \<Rightarrow> ct_sample \<Rightarrow> u32 \<Rightarrow> prf_call list" where
  "augment_calls ctx s sample_idx =
     (let height = dims s 0;
          width = (if 1 < ndims s then dims s 1 else 1);
          crop_on = (random_crop (flags ctx) \<and> 0 < crop_height ctx \<and> 0 < crop_width ctx);
          n = (if crop_on then crop_width ctx * crop_height ctx else total_elements s)
      in (if h_flip (flags ctx)
          then [(aug_seed ctx, aug_epoch ctx, push_bit 16 sample_idx OR 0x0100)] else []) @
         (if crop_on
          then ct_prng_uniform_calls (aug_seed ctx) (aug_epoch ctx)
                 (push_bit 16 sample_idx OR 0x0001) (width - crop_width ctx + 1) @
               ct_prng_uniform_calls (aug_seed ctx) (aug_epoch ctx)
                 (push_bit 16 sample_idx OR 0x0002) (height - crop_height ctx + 1)
          else []) @
         (if gaussian_noise (flags ctx) \<and> 0 <s noise_std ctx
          then concat (map (noise_pair_calls (aug_seed ctx) (aug_epoch ctx) sample_idx)
                       [0..<(unat n + 1) div 2])
          else []))"

text \<open>
  A caller's fault flags across a call of \<^verbatim>\<open>ct_batch_verify\<close>: the function receives
  the batch alone, through a pointer to const, so the flags after the call are the flags
  before it.
\<close>

definition verify_call ::
  "(nat \<Rightarrow> ct_hash) \<Rightarrow> ct_batch \<Rightarrow> ct_fault_flags \<Rightarrow> (int \<times> ct_fault_flags) option" where
  "verify_call scratch batch faults =
     map_option (\<lambda>r. (r, faults)) (ct_batch_verify scratch batch)"

text \<open>
  The sample hashes that \<^verbatim>\<open>ct_batch_fill\<close> leaves in a batch of declared size \<open>B\<close>
  holding \<open>eff\<close> samples: slot \<open>i < eff\<close> has the hash of the sample the permutation
  picks for global index \<open>start + i\<close>, the other slots are zero.
\<close>

definition filled_hashes ::
  "ct_dataset \<Rightarrow> u32 \<Rightarrow> u32 \<Rightarrow> u64 \<Rightarrow> nat \<Rightarrow> nat \<Rightarrow> ct_hash" where
  "filled_hashes dataset start_idx epoch seed eff i =
     (if i < eff
      then ct_hash_sample (samples_ds dataset
             (unat (ct_permute_index (start_idx + of_nat i) (num_samples dataset) seed epoch)))
      else zero_hash)"

definition ex_scratch :: "nat \<Rightarrow> ct_hash" where
  "ex_scratch = (\<lambda>_. replicate 32 0xAA)"

definition ex_leaves :: "nat \<Rightarrow> ct_hash" where
  "ex_leaves = (\<lambda>i. replicate 32 (of_nat i))"

definition ex_dataset :: ct_dataset where
  "ex_dataset = \<lparr>samples_ds = (\<lambda>_. ex_sample), num_samples = 1, dataset_hash = zero_hash\<rparr>"

definition ex_batch2 :: ct_batch where
  "ex_batch2 = \<lparr>samples = (\<lambda>_. zero_sample), sample_hashes = (\<lambda>_. zero_hash),
                 batch_size = 2, batch_index = 0, batch_hash = zero_hash\<rparr>"

definition ex_bad_batch :: ct_batch where
  "ex_bad_batch = \<lparr>samples = (\<lambda>_. zero_sample), sample_hashes = (\<lambda>_. zero_hash),
                    batch_size = 1, batch_index = 0, batch_hash = replicate 32 1\<rparr>"

definition ex_sample_hash :: ct_hash where
  "ex_sample_hash =
     [22, 89, 201, 97, 49, 45, 89, 106, 135, 10, 40, 93, 121, 144, 59, 128,
      80, 18, 42, 78, 212, 52, 62, 151, 214, 56, 87, 122, 223, 240, 105, 223]"

definition ex_padded_root :: ct_hash where
  "ex_padded_root =
     [135, 193, 239, 119, 96, 119, 243, 51, 222, 237, 163, 51, 229, 185, 77, 248,
      65, 197, 180, 159, 142, 244, 237, 113, 15, 218, 25, 230, 227, 162, 85, 28]"

text \<open>
  Leaves for a tree of 1025: 1024 all-zero digests and a last leaf of bytes 1.
  \<open>equal_leaves_root k a\<close> is the root over \<open>2\<^sup>k\<close> leaves all equal to \<open>a\<close>: each level
  pairs a node with itself.  \<open>ex_levels\<close> lists the node of each level over the all-zero
  leaves, from the leaf (level 0) to the root of 1024 leaves (level 10).
\<close>

fun equal_leaves_root :: "nat \<Rightarrow> ct_hash \<Rightarrow> ct_hash" where
  "equal_leaves_root 0 a = a"
| "equal_leaves_root (Suc k) a = equal_leaves_root k (ct_hash_internal a a)"

definition ex_flat_leaves :: "nat \<Rightarrow> ct_hash" where
  "ex_flat_leaves = (\<lambda>i. if i = 1024 then replicate 32 1 else zero_hash)"

definition ex_levels :: "ct_hash list" where
  "ex_levels =
     [[0, 0, 0, 0, 0, 0, 0, 0, 0, 0, 0, 0, 0, 0, 0, 0,
       0, 0, 0, 0, 0, 0, 0, 0, 0, 0, 0, 0, 0, 0, 0, 0],
      [174, 7, 152, 208, 236, 174, 210, 183, 120, 237, 222, 191, 24, 240, 113, 165,
       97, 197, 54, 88, 192, 94, 118, 206, 222, 204, 39, 202, 251, 219, 197, 119],
      [144, 83, 79, 224, 175, 246, 219, 158, 219, 41, 238, 231, 78, 120, 163, 134,
       145, 106, 88, 28, 142, 100, 101, 52, 148, 147, 225, 166, 200, 114, 65, 225],
      [190, 161, 97, 98, 114, 27, 202, 75, 110, 23, 130, 203, 220, 105, 90, 71,
       21, 34, 21, 124, 103, 22, 245, 8, 219, 71, 197, 153, 25, 83, 64, 244],
      [48, 118, 95, 239, 52, 27, 223, 231, 73, 195, 145, 191, 149, 106, 159, 3,
       211, 99, 148, 27, 46, 184, 248, 90, 177, 107, 182, 235, 13, 60, 77, 239],
      [241, 160, 167, 26, 101, 80, 196, 27, 200, 212, 218, 196, 241, 134, 182, 210,
       116, 168, 57, 242, 249, 90, 217, 227, 187, 101, 29, 69, 129, 12, 90, 31],
      [198, 152, 73, 7, 210, 229, 52, 150, 67, 81, 57, 59, 200, 95, 4, 55,
       64, 101, 182, 56, 112, 204, 133, 156, 104, 25, 45, 239, 9, 12, 16, 23],
      [220, 6, 6, 185, 6, 35, 141, 209, 87, 230, 156, 178, 97, 231, 86, 150,
       0, 126, 77, 154, 63, 112, 122, 124, 225, 12, 228, 16, 208, 139, 207, 236],
      [142, 75, 55, 69, 229, 242, 247, 212, 142, 54, 177, 146, 203, 57, 36, 47,
       160, 247, 167, 111, 172, 30, 54, 165, 25, 216, 235, 224, 15, 62, 33, 251],
      [189, 117, 43, 142, 118, 245, 248, 145, 229, 211, 161, 3, 82, 219, 243, 172,
       37, 18, 59, 110, 180, 138, 58, 209, 84, 2, 12, 208, 200, 77, 33, 118],
      [41, 57, 141, 72, 225, 161, 169, 243, 200, 224, 249, 123, 15, 140, 6, 109,
       43, 234, 248, 138, 49, 155, 174, 240, 42, 84, 130, 214, 21, 126, 189, 43]]"

definition ex_stale_root :: ct_hash where
  "ex_stale_root =
     [167, 176, 28, 239, 99, 185, 131, 202, 59, 173, 63, 218, 7, 170, 84, 23,
      74, 86, 251, 227, 51, 33, 90, 241, 141, 45, 66, 225, 137, 123, 145, 22]"

definition ex_full_root :: ct_hash where
  "ex_full_root =
     [170, 92, 206, 24, 42, 159, 63, 108, 82, 33, 70, 110, 252, 180, 159, 147,
      149, 45, 65, 11, 184, 142, 121, 35, 203, 237, 134, 86, 4, 254, 205, 61]"





section \<open>Round-half-to-even shift\<close>

lemma sint_INT32_MAX: "sint INT32_MAX = 2147483647"
  by (simp add: INT32_MAX_def)

lemma sint_INT32_MIN: "sint INT32_MIN = - 2147483648"
  by (simp add: INT32_MIN_def)

lemma sint_wi64:
  assumes "- (2 ^ 63) \<le> k" "k < 2 ^ 63"
  shows "sint (word_of_int k :: i64) = k"
  using assms by (simp add: sint_sbintrunc' signed_take_bit_int_eq_self)

lemma sint_bounds64: "- (2 ^ 63) \<le> sint (x :: i64) \<and> sint x < 2 ^ 63"
  using sint_ge [of x] sint_lt [of x] by simp

lemma uint_mod_sint:
  fixes x :: i64
  assumes "s \<le> 64"
  shows "uint x mod 2 ^ s = sint x mod 2 ^ s"
proof -
  have "uint x = sint x mod 2 ^ 64"
    by (simp add: uint_sint take_bit_eq_mod)
  moreover have "(2::int) ^ s dvd 2 ^ 64"
    by (rule le_imp_power_dvd) (fact assms)
  ultimately show ?thesis
    by (simp add: mod_mod_cancel)
qed

lemma sint_ucast_64_32:
  fixes x :: i64
  assumes "- 2147483648 \<le> sint x" "sint x \<le> 2147483647"
  shows "sint (ucast x :: i32) = sint x"
proof -
  have "sint (word_of_int (uint x) :: i32) = signed_take_bit 31 (uint x)"
    by (simp only: sint_sbintrunc') simp
  then have "sint (ucast x :: i32) = signed_take_bit 31 (uint x)"
    by (simp only: ucast_eq)
  also have "uint x = take_bit 64 (sint x)"
    by (simp add: uint_sint)
  also have "signed_take_bit 31 (take_bit 64 (sint x)) = signed_take_bit 31 (sint x)"
    by (simp add: signed_take_bit_take_bit)
  also have "\<dots> = sint x"
    using assms by (simp add: signed_take_bit_int_eq_self)
  finally show ?thesis .
qed

lemma sint_frac:
  fixes x :: i64
  assumes "0 < s" "s \<le> 62"
  shows "sint (x AND (push_bit s 1 - 1)) = sint x mod 2 ^ s"
proof -
  have m: "(push_bit s 1 - 1 :: i64) = mask s"
    by (simp add: mask_eq_decr_exp)
  have lt: "sint x mod 2 ^ s < 2 ^ s" by simp
  have "(2::int) ^ s \<le> 2 ^ 62"
    using assms by (intro power_increasing) auto
  moreover have c: "(2::int) ^ 62 < 2 ^ 63" by simp
  ultimately have b: "sint x mod 2 ^ s < 2 ^ 63" using lt by linarith
  have "0 \<le> sint x mod 2 ^ s" "(0::int) \<le> 2 ^ 63" by simp_all
  then have nn: "- (2 ^ 63) \<le> sint x mod 2 ^ s" by linarith
  have "x AND mask s = word_of_int (sint x mod 2 ^ s)"
    using assms by (simp add: and_mask_mod_2p uint_mod_sint)
  then show ?thesis
    unfolding m using b nn by (simp only: sint_wi64)
qed

lemma sint_halfway:
  assumes "0 < s" "s \<le> 62"
  shows "sint (push_bit (s - 1) 1 :: i64) = 2 ^ (s - 1)"
proof -
  have "(2::int) ^ (s - 1) \<le> 2 ^ 62"
    using assms by (intro power_increasing) auto
  moreover have "(0::int) \<le> 2 ^ (s - 1)" by simp
  moreover have "(2::int) ^ 62 < 2 ^ 63" "(0::int) \<le> 2 ^ 63" by simp_all
  ultimately have "sint (word_of_int (2 ^ (s - 1)) :: i64) = 2 ^ (s - 1)"
    by (intro sint_wi64) linarith+
  then show ?thesis
    by (simp add: word_of_int_2p)
qed

lemma sint_quot:
  fixes x :: i64
  shows "sint (signed_drop_bit s x) = sint x div 2 ^ s"
  by (simp add: sint_signed_drop_bit_eq drop_bit_eq_div)

lemma quot_bounds:
  fixes k :: int
  assumes "0 < s" "- (2 ^ 63) \<le> k" "k < 2 ^ 63"
  shows "- (2 ^ 62) \<le> k div 2 ^ s \<and> k div 2 ^ s < 2 ^ 62"
proof -
  have "(2::int) ^ 1 \<le> 2 ^ s"
    using assms(1) by (intro power_increasing) auto
  then have two: "(2::int) \<le> 2 ^ s" by simp
  show ?thesis
  proof (cases "0 \<le> k")
    case True
    then have "k div 2 ^ s \<le> k div 2"
      using two by (intro zdiv_mono2) auto
    moreover have "0 \<le> k div 2 ^ s"
      using True by (simp add: pos_imp_zdiv_nonneg_iff)
    ultimately show ?thesis using assms by simp
  next
    case False
    then have "k div 2 \<le> k div 2 ^ s"
      using two by (intro zdiv_mono2_neg) auto
    moreover have "k div 2 ^ s < 0"
      using False by (simp add: pos_imp_zdiv_neg_iff)
    ultimately show ?thesis using assms by simp
  qed
qed

lemma sint_quot_plus:
  fixes x :: i64
  assumes "0 < s" "d = 0 \<or> d = 1"
  shows "sint (signed_drop_bit s x + word_of_int d) = sint x div 2 ^ s + d"
proof -
  have b: "- (2 ^ 62) \<le> sint x div 2 ^ s \<and> sint x div 2 ^ s < 2 ^ 62"
    using assms(1) sint_bounds64 [of x] by (intro quot_bounds) auto
  have "signed_drop_bit s x = word_of_int (sint (signed_drop_bit s x))"
    by simp
  then have "signed_drop_bit s x = word_of_int (sint x div 2 ^ s)"
    by (simp only: sint_quot)
  then have eq: "signed_drop_bit s x + word_of_int d = word_of_int (sint x div 2 ^ s + d)"
    by (simp only: wi_hom_add)
  have "- (2 ^ 63) \<le> sint x div 2 ^ s + d" "sint x div 2 ^ s + d < 2 ^ 63"
    using b assms(2) by auto
  then show ?thesis
    unfolding eq by (rule sint_wi64)
qed

lemma and_1_wi:
  fixes q :: i64
  shows "q AND 1 = word_of_int (sint q mod 2)"
proof -
  have "q AND 1 = q AND mask 1" by simp
  also have "\<dots> = word_of_int (uint q mod 2 ^ 1)"
    by (rule and_mask_mod_2p)
  also have "uint q mod 2 ^ 1 = sint q mod 2 ^ 1"
    by (rule uint_mod_sint) simp
  finally show ?thesis by simp
qed

lemma dvm_clamp32_value: "sint (fst (dvm_clamp32 x f)) = clamp32_int (sint x)"
  by (simp add: dvm_clamp32_def clamp32_int_def word_sless_alt sint_INT32_MAX sint_INT32_MIN
      sint_ucast_64_32)

lemma dvm_clamp32_faults:
  "snd (dvm_clamp32 x f) =
     f\<lparr>overflow := overflow f \<or> 2147483647 < sint x,
       underflow := underflow f \<or> sint x < - 2147483648\<rparr>"
  by (simp add: dvm_clamp32_def word_sless_alt sint_INT32_MAX sint_INT32_MIN)

lemma rne_result_sint:
  fixes x :: i64
  assumes "0 < s" "s \<le> 62"
  shows "sint (let msk = push_bit s 1 - 1;
            halfway = push_bit (s - 1) 1;
            frac = x AND msk;
            quot = signed_drop_bit s x
          in if frac <s halfway then quot
               else if halfway <s frac then quot + 1
               else quot + (quot AND 1))
         = rne_quot (sint x) s"
proof -
  define halfway :: i64 where "halfway = push_bit (s - 1) 1"
  define frac where "frac = x AND (push_bit s 1 - 1)"
  define quot where "quot = signed_drop_bit s x"
  have h: "sint halfway = 2 ^ (s - 1)"
    unfolding halfway_def by (rule sint_halfway) (fact assms)+
  have f: "sint frac = sint x mod 2 ^ s"
    unfolding frac_def by (rule sint_frac) (fact assms)+
  have q: "sint quot = sint x div 2 ^ s"
    unfolding quot_def by (rule sint_quot)
  have p1: "sint (quot + 1) = sint x div 2 ^ s + 1"
    unfolding quot_def using sint_quot_plus [OF assms(1), of 1 x] by simp
  have "sint (quot + word_of_int (sint quot mod 2)) = sint x div 2 ^ s + sint quot mod 2"
    unfolding quot_def by (rule sint_quot_plus [OF assms(1)]) presburger
  then have p2: "sint (quot + (quot AND 1)) = sint x div 2 ^ s + (sint x div 2 ^ s) mod 2"
    by (simp only: and_1_wi q)
  have "sint (if frac <s halfway then quot
               else if halfway <s frac then quot + 1
               else quot + (quot AND 1)) = rne_quot (sint x) s"
    using assms(1) by (simp add: word_sless_alt h f q p1 p2 rne_quot_def)
  then show ?thesis
    by (simp only: Let_def halfway_def frac_def quot_def)
qed

lemma is_rne_rne_quot: "is_rne x s (rne_quot x s)"
proof (cases "s = 0")
  case True
  then show ?thesis by (simp add: is_rne_def rne_quot_def)
next
  case False
  define P :: int where "P = 2 ^ s"
  define h :: int where "h = 2 ^ (s - 1)"
  define q where "q = x div P"
  define r where "r = x mod P"
  have P: "P = 2 * h"
    using False by (cases s) (simp_all add: P_def h_def)
  have x: "x = q * P + r"
    by (simp add: q_def r_def)
  have r: "0 \<le> r" "r < P"
    by (simp_all add: r_def P_def)
  have q1: "(q + 1) * P = q * P + P"
    by (simp add: algebra_simps)
  have goal: "2 * \<bar>y * P - x\<bar> \<le> P \<and> (2 * \<bar>y * P - x\<bar> = P \<longrightarrow> even y)"
    if y: "y = (if r < h then q else if h < r then q + 1 else q + q mod 2)" for y
  proof (cases "r < h")
    case True
    then have "y * P - x = - r" using y x by simp
    then show ?thesis using True r P by simp
  next
    case nlt: False
    show ?thesis
    proof (cases "h < r")
      case True
      then have "y * P - x = P - r" using y x nlt q1 by simp
      then show ?thesis using True r P by simp
    next
      case False
      then have rh: "r = h" using nlt by simp
      show ?thesis
      proof (cases "even q")
        case True
        then have "y = q" using y rh by simp
        then have "y * P - x = - h" "even y" using x rh True by simp_all
        then show ?thesis using P r rh by simp
      next
        case False
        then have "q mod 2 = 1" by presburger
        then have yq: "y = q + 1" using y rh by simp
        then have "y * P - x = h" using x rh q1 P by simp
        moreover have "even y" using yq False by simp
        ultimately show ?thesis using P r rh by simp
      qed
    qed
  qed
  have "rne_quot x s = (if r < h then q else if h < r then q + 1 else q + q mod 2)"
    using False by (simp add: rne_quot_def r_def q_def P_def h_def)
  from goal [OF this] show ?thesis
    by (simp add: is_rne_def P_def)
qed

lemma is_rne_unique:
  assumes "is_rne x s y" "is_rne x s z"
  shows "y = z"
proof -
  define P :: int where "P = 2 ^ s"
  define a where "a = y * P - x"
  define b where "b = z * P - x"
  have P: "0 < P" by (simp add: P_def)
  have ab: "2 * \<bar>a\<bar> \<le> P" "2 * \<bar>b\<bar> \<le> P"
    and ev: "2 * \<bar>a\<bar> = P \<Longrightarrow> even y" "2 * \<bar>b\<bar> = P \<Longrightarrow> even z"
    using assms by (simp_all add: is_rne_def a_def b_def P_def)
  have d: "(y - z) * P = a - b"
    by (simp add: a_def b_def algebra_simps)
  have "\<bar>y - z\<bar> * P = \<bar>a - b\<bar>"
    using P d by (simp add: abs_mult flip: d)
  also have "\<dots> \<le> 1 * P" using ab by linarith
  finally have "\<bar>y - z\<bar> \<le> 1"
    using P by (simp only: mult_le_cancel_right)
  then consider "y = z" | "y = z + 1" | "z = y + 1" by linarith
  then show ?thesis
  proof cases
    case 1
    then show ?thesis .
  next
    case 2
    then have "a - b = P" using d by simp
    then have "2 * \<bar>a\<bar> = P" "2 * \<bar>b\<bar> = P" using ab by linarith+
    then have "even y" "even z" using ev by simp_all
    then show ?thesis using 2 by simp
  next
    case 3
    then have "b - a = P" using d by (simp add: algebra_simps)
    then have "2 * \<bar>a\<bar> = P" "2 * \<bar>b\<bar> = P" using ab by linarith+
    then have "even y" "even z" using ev by simp_all
    then show ?thesis using 3 by simp
  qed
qed

text \<open>
  Claim C6.  For every 64-bit signed \<open>x\<close> and every shift in \<open>[0, 62]\<close>,
  \<^verbatim>\<open>dvm_round_shift_rne\<close> returns the round-half-to-even rounding of the exact quotient
  \<open>x / 2 ^ shift\<close>, saturated to the signed 32-bit range (and sets overflow or underflow
  exactly when it saturates); with shift 0 it is \<^verbatim>\<open>dvm_clamp32\<close>; for a shift above 62
  it sets the domain fault and returns 0; on a tie the result is \<open>quot + (quot & 1)\<close>.
  By \<open>is_rne_unique\<close> the value \<open>rne_quot\<close> is the only one that \<open>is_rne\<close> admits.
\<close>

theorem dvm_round_shift_rne_spec:
  "(shift \<le> 62 \<longrightarrow>
      sint (fst (dvm_round_shift_rne x shift f)) = clamp32_int (rne_quot (sint x) (unat shift)) \<and>
      is_rne (sint x) (unat shift) (rne_quot (sint x) (unat shift)) \<and>
      snd (dvm_round_shift_rne x shift f) =
        f\<lparr>overflow := overflow f \<or> 2147483647 < rne_quot (sint x) (unat shift),
          underflow := underflow f \<or> rne_quot (sint x) (unat shift) < - 2147483648\<rparr>) \<and>
   dvm_round_shift_rne x 0 f = dvm_clamp32 x f \<and>
   (62 < shift \<longrightarrow> dvm_round_shift_rne x shift f = (0, f\<lparr>domain := True\<rparr>)) \<and>
   (0 < shift \<and> shift \<le> 62 \<and> sint x mod 2 ^ unat shift = 2 ^ (unat shift - 1) \<longrightarrow>
      rne_quot (sint x) (unat shift) =
        sint x div 2 ^ unat shift + (sint x div 2 ^ unat shift) mod 2)"
proof (intro conjI impI)
  assume le: "shift \<le> 62"
  show "is_rne (sint x) (unat shift) (rne_quot (sint x) (unat shift))"
    by (rule is_rne_rne_quot)
  have val: "sint (fst (dvm_round_shift_rne x shift f)) = clamp32_int (rne_quot (sint x) (unat shift))
     \<and> snd (dvm_round_shift_rne x shift f) =
        f\<lparr>overflow := overflow f \<or> 2147483647 < rne_quot (sint x) (unat shift),
          underflow := underflow f \<or> rne_quot (sint x) (unat shift) < - 2147483648\<rparr>"
  proof (cases "shift = 0")
    case True
    then show ?thesis
      by (simp add: dvm_round_shift_rne_def dvm_clamp32_value dvm_clamp32_faults rne_quot_def)
  next
    case False
    then have pos: "0 < unat shift" by (simp add: unat_gt_0)
    have "unat shift \<le> unat (62 :: u32)" using le by (simp only: word_le_nat_alt)
    then have le': "unat shift \<le> 62" by simp
    have nl: "\<not> 62 < shift" using le by simp
    show ?thesis
      unfolding dvm_round_shift_rne_def
      using False nl rne_result_sint [OF pos le', of x]
      by (simp only: if_False Let_def dvm_clamp32_value dvm_clamp32_faults)
  qed
  then show "sint (fst (dvm_round_shift_rne x shift f)) = clamp32_int (rne_quot (sint x) (unat shift))"
    and "snd (dvm_round_shift_rne x shift f) =
        f\<lparr>overflow := overflow f \<or> 2147483647 < rne_quot (sint x) (unat shift),
          underflow := underflow f \<or> rne_quot (sint x) (unat shift) < - 2147483648\<rparr>"
    by simp_all
next
  show "dvm_round_shift_rne x 0 f = dvm_clamp32 x f"
    by (simp add: dvm_round_shift_rne_def)
next
  assume "62 < shift"
  then show "dvm_round_shift_rne x shift f = (0, f\<lparr>domain := True\<rparr>)"
    by (simp add: dvm_round_shift_rne_def)
next
  assume a: "0 < shift \<and> shift \<le> 62 \<and> sint x mod 2 ^ unat shift = 2 ^ (unat shift - 1)"
  then have "0 < unat shift" by (simp add: unat_gt_0 word_neq_0_conv)
  with a show "rne_quot (sint x) (unat shift) =
        sint x div 2 ^ unat shift + (sint x div 2 ^ unat shift) mod 2"
    by (simp add: rne_quot_def)
qed

text \<open>
  The specification's scenarios (1.5 and 2.5 round to 2, -1.5 rounds to -2), the shift 0
  and a shift above 62, through the theorem.
\<close>

theorem dvm_round_shift_rne_spec_witness:
  "sint (fst (dvm_round_shift_rne 0x18000 16 f0)) = 2 \<and>
   sint (fst (dvm_round_shift_rne 0x28000 16 f0)) = 2 \<and>
   sint (fst (dvm_round_shift_rne 0xFFFFFFFFFFFE8000 16 f0)) = - 2 \<and>
   snd (dvm_round_shift_rne 0x18000 16 f0) = f0 \<and>
   is_rne 98304 16 2 \<and>
   dvm_round_shift_rne 5 0 f0 = dvm_clamp32 5 f0 \<and>
   dvm_round_shift_rne 5 63 f0 = (0, f0\<lparr>domain := True\<rparr>)"
  using dvm_round_shift_rne_spec [of 16 "0x18000" f0]
    dvm_round_shift_rne_spec [of 16 "0x28000" f0]
    dvm_round_shift_rne_spec [of 16 "0xFFFFFFFFFFFE8000" f0]
    dvm_round_shift_rne_spec [of 0 5 f0]
    dvm_round_shift_rne_spec [of 63 5 f0]
  by (simp add: rne_quot_def clamp32_int_def f0_def)

section \<open>The PRF and the displayed mixing function\<close>

lemma splitmix64_0: "splitmix64 0 = 0xE220A8397B1DCDAF"
  by (simp add: splitmix64_def)

lemma splitmix64_1: "splitmix64 0xE220A8397B1DCDAF = 0xA706DD2F4D197E6F"
  by (simp add: splitmix64_def)

lemma spec_mix_0: "spec_mix 0 = 0"
  by (simp add: spec_mix_def)

text \<open>
  Claim C7 says that \<^verbatim>\<open>ct_prng\<close> is the displayed three-line mix applied twice to the
  state word, with no other transformation.  At seed 0, epoch 0, op\_id 0 the displayed mix
  maps 0 to 0, twice; the code returns a non-zero value.
\<close>

theorem ct_prng_differs_from_spec_prf:
  "spec_prf 0 0 0 = 0 \<and> ct_prng 0 0 0 = 0xA706DD2F4D197E6F \<and> ct_prng 0 0 0 \<noteq> spec_prf 0 0 0"
  by (simp add: ct_prng_def spec_prf_def splitmix64_0 splitmix64_1 spec_mix_0)

text \<open>
  Claim C7, amended.  For every seed, epoch and op\_id, \<^verbatim>\<open>ct_prng\<close> applies
  \<^verbatim>\<open>splitmix64\<close> twice to the state word \<open>seed XOR (epoch << 32) XOR op_id\<close>, and each
  application first adds the constant \<open>0x9E3779B97F4A7C15\<close> (modulo \<open>2\<^sup>6\<^sup>4\<close>) and then
  performs the displayed mix.
\<close>

theorem ct_prng_adds_gamma:
  "ct_prng seed epoch op_id =
     spec_mix (spec_mix (((seed XOR push_bit 32 (ucast epoch)) XOR ucast op_id)
                         + 0x9E3779B97F4A7C15) + 0x9E3779B97F4A7C15)"
  by (simp only: ct_prng_def splitmix64_def spec_mix_def Let_def)

section \<open>Augmentation and normalisation of samples and batches\<close>

lemma fold_preserves: "(\<And>x s. P (f x s) = P s) \<Longrightarrow> P (fold f xs s) = P s"
  by (induction xs arbitrary: s) simp_all

lemma total_elements_horizontal_flip [simp]:
  "total_elements (horizontal_flip s w h) = total_elements s"
  unfolding horizontal_flip_def
  by (intro fold_preserves) (simp add: flip_cell_def Let_def)

lemma total_elements_random_crop_op [simp]:
  "total_elements (fst (random_crop_op s sw sh cw ch sd ep idx)) = cw * ch"
  by (simp add: random_crop_op_def Let_def)


lemma ct_augment_sample_stages:
  "ct_augment_sample ctx s idx fl = staged_augment ctx s idx fl"
  by (cases "h_flip (flags ctx)";
      cases "random_crop (flags ctx) \<and> 0 < crop_height ctx \<and> 0 < crop_width ctx";
      cases "gaussian_noise (flags ctx) \<and> 0 <s noise_std ctx")
     (simp_all only: ct_augment_sample_def staged_augment_def hflip_stage_def crop_stage_def
        noise_stage_def Let_def case_prod_unfold if_True if_False fst_conv snd_conv
        option.map append_Nil append_Nil2 option.case_distrib [of "map_option _"]
        split: option.split, simp_all add: case_prod_unfold split: option.splits)

lemma total_elements_hflip_stage [simp]:
  "total_elements (fst (hflip_stage ctx idx w h s)) = total_elements s"
  by (simp add: hflip_stage_def)





subsection \<open>Order of the operations\<close>

lemma smx_260: "splitmix64 260 = 0xBEBD1E51F35AEE1B" by (simp add: splitmix64_def)
lemma smx_260b: "splitmix64 0xBEBD1E51F35AEE1B = 0xDC2620A734E58F1B" by (simp add: splitmix64_def)
lemma smx_5: "splitmix64 5 = 0x63033B0CA389C35A" by (simp add: splitmix64_def)
lemma smx_5b: "splitmix64 0x63033B0CA389C35A = 0xFAD6E24671254235" by (simp add: splitmix64_def)

lemma ex_flip_draw: "ct_prng 4 0 0x100 = 0xDC2620A734E58F1B"
  by (simp add: ct_prng_def smx_260 smx_260b)

lemma ex_crop_draw: "ct_prng 4 0 1 = 0xFAD6E24671254235"
  by (simp add: ct_prng_def smx_5 smx_5b)

lemma uniform_loop_accept:
  assumes "val < threshold"
  shows "uniform_loop 4 threshold rand val = val"
proof -
  have "\<not> threshold \<le> val" using assms by simp
  then have "uniform_loop (Suc 3) threshold rand val = val"
    by (simp only: uniform_loop.simps if_False)
  moreover have "(4::nat) = Suc 3" by simp
  ultimately show ?thesis by (simp only:)
qed

lemma ct_prng_uniform_1: "ct_prng_uniform seed epoch op_id 1 = 0"
  by (simp add: ct_prng_uniform_def)

lemma ex_crop_x: "ct_prng_uniform 4 0 1 2 = 1"
  by (simp add: ct_prng_uniform_def ex_crop_draw uniform_loop_accept)

text \<open>
  Claim C3 states the order crop, horizontal flip, vertical flip, brightness, noise.  On a
  1 by 2 image \<open>[10, 20]\<close> with flip and a 1 by 1 crop enabled (seed 4, epoch 0, sample 0:
  the flip is drawn, the crop offset is 1) the source flips first and then crops, which
  leaves 10 in cell 0; cropping first and flipping the cropped image leaves 20.
\<close>

theorem augment_order_differs:
  "map_option (\<lambda>(s, f, c). data s 0) (ct_augment_sample ex_flip_crop_ctx ex_image 0 f0) = Some 10 \<and>
   map_option (\<lambda>(s, f, c). data s 0) (claimed_order_augment ex_flip_crop_ctx ex_image 0 f0) = Some 20"
  by (simp add: ct_augment_sample_stages staged_augment_def claimed_order_augment_def
      hflip_stage_def crop_stage_def noise_stage_def ex_flip_crop_ctx_def ex_image_def
      ex_flip_draw ex_crop_x ct_prng_uniform_1 random_crop_op_def crop_cell_def
      horizontal_flip_def flip_cell_def Let_def)


text \<open>
  Claim C3, amended.  \<^verbatim>\<open>ct_augment_sample\<close> applies, in this fixed order whatever the
  flags, the horizontal flip, then the random crop, then the noise; each of the three is the
  identity and draws nothing when its guard fails (flag off, or a zero crop size, or a
  noise deviation that is not positive).  The \<open>v_flip\<close> flag has no effect, and there is
  no brightness operation.
\<close>

theorem ct_augment_sample_order:
  "ct_augment_sample ctx s idx fl = staged_augment ctx s idx fl \<and>
   (\<not> h_flip (flags ctx) \<longrightarrow> hflip_stage ctx idx w h s = (s, [])) \<and>
   (\<not> (random_crop (flags ctx) \<and> 0 < crop_height ctx \<and> 0 < crop_width ctx) \<longrightarrow>
      crop_stage ctx idx w h s = (s, [])) \<and>
   (\<not> (gaussian_noise (flags ctx) \<and> 0 <s noise_std ctx) \<longrightarrow>
      noise_stage ctx idx fl s = Some (s, fl, [])) \<and>
   ct_augment_sample (ctx\<lparr>flags := (flags ctx)\<lparr>v_flip := b\<rparr>\<rparr>) s idx fl =
     ct_augment_sample ctx s idx fl"
proof (intro conjI)
  show "ct_augment_sample ctx s idx fl = staged_augment ctx s idx fl"
    by (rule ct_augment_sample_stages)
  show "ct_augment_sample (ctx\<lparr>flags := (flags ctx)\<lparr>v_flip := b\<rparr>\<rparr>) s idx fl =
     ct_augment_sample ctx s idx fl"
    by (simp add: ct_augment_sample_def Let_def case_prod_unfold cong: if_cong)
qed (simp_all add: hflip_stage_def crop_stage_def noise_stage_def)

text \<open>With every flag off, and with only \<open>v_flip\<close> on, the sample comes back unchanged.\<close>

theorem ct_augment_sample_order_witness:
  "ct_augment_sample ex_off_ctx ex_image 0 f0 = Some (ex_image, f0, []) \<and>
   ct_augment_sample (ex_off_ctx\<lparr>flags := (flags ex_off_ctx)\<lparr>v_flip := True\<rparr>\<rparr>) ex_image 0 f0
     = Some (ex_image, f0, [])"
  using ct_augment_sample_order [of ex_off_ctx ex_image 0 f0 2 1 True]
  by (simp add: staged_augment_def hflip_stage_def crop_stage_def noise_stage_def
      ex_off_ctx_def no_flags_def Let_def)


subsection \<open>Draws of the PRF\<close>

lemma noise_pair_calls_step:
  "snd (snd (noise_pair std sd ep idx j st)) = snd (snd st) @ noise_pair_calls sd ep idx j"
  by (simp add: noise_pair_def noise_pair_calls_def Let_def case_prod_unfold)

lemma fold_noise_pair_calls:
  "snd (snd (fold (noise_pair std sd ep idx) js st)) =
     snd (snd st) @ concat (map (noise_pair_calls sd ep idx) js)"
  by (induction js arbitrary: st) (simp_all add: noise_pair_calls_step)

lemma gaussian_noise_op_calls:
  assumes "gaussian_noise_op s std sd ep idx f = Some (s', f', c)"
  shows "c = concat (map (noise_pair_calls sd ep idx) [0..<(unat (total_elements s) + 1) div 2])"
proof -
  have "fold (noise_pair std sd ep idx) [0..<(unat (total_elements s) + 1) div 2] (s, f, [])
          = (s', f', c)"
    using assms by (simp add: gaussian_noise_op_def split: if_splits)
  then have "c = snd (snd (fold (noise_pair std sd ep idx)
                    [0..<(unat (total_elements s) + 1) div 2] (s, f, [])))"
    by simp
  then show ?thesis
    by (simp only: fold_noise_pair_calls snd_conv append_Nil)
qed

lemma total_elements_crop_stage:
  "total_elements (fst (crop_stage ctx idx w h s)) =
     (if random_crop (flags ctx) \<and> 0 < crop_height ctx \<and> 0 < crop_width ctx
      then crop_width ctx * crop_height ctx else total_elements s)"
  by (simp add: crop_stage_def)

text \<open>
  Claim C2 says that the sequence of PRF calls does not depend on the flags.  With the
  same seed, epoch, sample and sample index, enabling the horizontal flip makes one call
  and disabling it makes none.
\<close>

theorem augment_draws_differ_by_flags:
  "map_option (snd \<circ> snd) (ct_augment_sample ex_flip_ctx ex_image 0 f0) = Some [(4, 0, 0x100)] \<and>
   map_option (snd \<circ> snd) (ct_augment_sample ex_off_ctx ex_image 0 f0) = Some []"
  by (simp add: ct_augment_sample_stages staged_augment_def hflip_stage_def crop_stage_def
      noise_stage_def ex_flip_ctx_def ex_off_ctx_def no_flags_def Let_def)


text \<open>
  Claim C2, amended.  The sequence of PRF calls of \<^verbatim>\<open>ct_augment_sample\<close> is
  \<open>augment_calls\<close>: it depends on the seed, epoch and sample index and also on the
  enabled flags, the crop size and the sample's shape, and not on the sample's data or the
  fault flags.  An operation draws only when it is enabled; with flip, crop and noise off
  there is no call at all.
\<close>

theorem augment_draws_follow_flags:
  "(ct_augment_sample ctx s idx fl = Some (s', fl', calls) \<longrightarrow> calls = augment_calls ctx s idx) \<and>
   (\<not> h_flip (flags ctx) \<and> \<not> random_crop (flags ctx) \<and> \<not> gaussian_noise (flags ctx) \<longrightarrow>
      augment_calls ctx s idx = [])"
proof (intro conjI impI)
  assume "ct_augment_sample ctx s idx fl = Some (s', fl', calls)"
  then have st: "staged_augment ctx s idx fl = Some (s', fl', calls)"
    by (simp add: ct_augment_sample_stages)
  define w where "w = (if 1 < ndims s then dims s 1 else 1)"
  define r1 where "r1 = hflip_stage ctx idx w (dims s 0) s"
  define r2 where "r2 = crop_stage ctx idx w (dims s 0) (fst r1)"
  from st obtain c3 where
    n: "noise_stage ctx idx fl (fst r2) = Some (s', fl', c3)" and c: "calls = snd r1 @ snd r2 @ c3"
    by (auto simp: staged_augment_def Let_def r1_def r2_def w_def)
  have t: "total_elements (fst r2) =
     (if random_crop (flags ctx) \<and> 0 < crop_height ctx \<and> 0 < crop_width ctx
      then crop_width ctx * crop_height ctx else total_elements s)"
    by (simp add: r2_def r1_def total_elements_crop_stage)
  have c3: "c3 = (if gaussian_noise (flags ctx) \<and> 0 <s noise_std ctx
      then concat (map (noise_pair_calls (aug_seed ctx) (aug_epoch ctx) idx)
             [0..<(unat (total_elements (fst r2)) + 1) div 2]) else [])"
    using n gaussian_noise_op_calls by (auto simp: noise_stage_def split: if_splits)
  show "calls = augment_calls ctx s idx"
    unfolding c c3 t
    by (simp add: augment_calls_def Let_def r1_def r2_def w_def hflip_stage_def crop_stage_def
        random_crop_op_def)
next
  assume "\<not> h_flip (flags ctx) \<and> \<not> random_crop (flags ctx) \<and> \<not> gaussian_noise (flags ctx)"
  then show "augment_calls ctx s idx = []"
    by (simp add: augment_calls_def)
qed

text \<open>The flip-only context draws once, the all-off context never.\<close>

theorem augment_draws_follow_flags_witness:
  "ct_augment_sample ex_flip_ctx ex_image 0 f0 = Some (horizontal_flip ex_image 2 1, f0, [(4, 0, 0x100)]) \<and>
   augment_calls ex_flip_ctx ex_image 0 = [(4, 0, 0x100)] \<and>
   augment_calls ex_off_ctx ex_image 0 = []"
  using augment_draws_follow_flags [of ex_flip_ctx ex_image 0 f0 "horizontal_flip ex_image 2 1" f0 "[(4, 0, 0x100)]"]
    augment_draws_follow_flags [of ex_off_ctx ex_image 0]
  by (simp add: ct_augment_sample_stages staged_augment_def hflip_stage_def crop_stage_def
      noise_stage_def ex_flip_ctx_def ex_off_ctx_def no_flags_def ex_image_def ex_flip_draw Let_def)

section \<open>The Merkle root against its specification\<close>



lemma length_pair_level [simp]: "length (pair_level xs) = (length xs + 1) div 2"
  by (induction xs rule: pair_level.induct) simp_all

lemma pair_level_nth:
  "j < (length xs + 1) div 2 \<Longrightarrow>
   pair_level xs ! j =
     (if 2 * j + 1 < length xs then ct_hash_internal (xs ! (2 * j)) (xs ! (2 * j + 1))
      else xs ! (2 * j))"
proof (induction xs arbitrary: j rule: pair_level.induct)
  case (1 a b r)
  then show ?case by (cases j) simp_all
next
  case (2 a)
  then show ?case by simp
next
  case 3
  then show ?case by simp
qed

lemma merkle_spec_step: "2 \<le> length xs \<Longrightarrow> merkle_spec xs = merkle_spec (pair_level xs)"
  by (cases xs rule: merkle_spec.cases) simp_all

lemma fold_upd_upt:
  "fold (\<lambda>i t. t(i := g i)) [a..<b] t j = (if a \<le> j \<and> j < b then g j else t j)"
  by (induction b arbitrary: t) auto

lemma copy_leaves_apply:
  "copy_leaves scratch leaves n j = (if j < min n LEAF_COPY_LIMIT then leaves j else scratch j)"
  by (simp add: copy_leaves_def fold_upd_upt)

lemma level_step_in_bounds:
  assumes "cur \<le> TREE_SLOTS" "i < (cur + 1) div 2"
  shows "level_step cur i t = Some (t(i := next_node cur t i))"
  using assms by (auto simp: level_step_def next_node_def Let_def mult.commute)

lemma level_loop_upt:
  assumes "cur \<le> TREE_SLOTS" "n \<le> (cur + 1) div 2" "k \<le> n" "\<forall>j \<ge> k. t j = tree j"
  shows "\<exists>t'. level_loop cur [k..<n] t = Some t' \<and>
           (\<forall>j. t' j = (if k \<le> j \<and> j < n then next_node cur tree j else t j))"
  using assms(3,4)
proof (induction "n - k" arbitrary: k t)
  case 0
  then show ?case by auto
next
  case (Suc d)
  then have kn: "k < n" by simp
  then have ki: "k < (cur + 1) div 2" using assms(2) by simp
  have nn: "next_node cur t k = next_node cur tree k"
    using Suc.prems(2) by (simp add: next_node_def)
  define t1 where "t1 = t(k := next_node cur tree k)"
  have st: "level_step cur k t = Some t1"
    using level_step_in_bounds [OF assms(1) ki, of t] nn by (simp add: t1_def)
  have "\<forall>j \<ge> Suc k. t1 j = tree j"
    using Suc.prems(2) by (simp add: t1_def)
  moreover have "d = n - Suc k" using Suc.hyps(2) by simp
  moreover have "Suc k \<le> n" using kn by simp
  ultimately obtain t' where
    t': "level_loop cur [Suc k..<n] t1 = Some t'"
        "\<forall>j. t' j = (if Suc k \<le> j \<and> j < n then next_node cur tree j else t1 j)"
    using Suc.hyps(1) [of "Suc k" t1] by blast
  have "level_loop cur [k..<n] t = Some t'"
    using kn st t'(1) by (simp add: upt_conv_Cons)
  moreover have "\<forall>j. t' j = (if k \<le> j \<and> j < n then next_node cur tree j else t j)"
    using t'(2) kn by (auto simp: t1_def)
  ultimately show ?case by blast
qed

lemma level_loop_pair_level:
  assumes "cur \<le> TREE_SLOTS"
  shows "\<exists>t'. level_loop cur [0..<(cur + 1) div 2] tree = Some t' \<and>
           map t' [0..<(cur + 1) div 2] = pair_level (map tree [0..<cur])"
proof -
  obtain t' where
    t': "level_loop cur [0..<(cur + 1) div 2] tree = Some t'"
        "\<forall>j. t' j = (if 0 \<le> j \<and> j < (cur + 1) div 2 then next_node cur tree j else tree j)"
    using level_loop_upt [OF assms, of "(cur + 1) div 2" 0 tree tree] by auto
  have "map t' [0..<(cur + 1) div 2] = pair_level (map tree [0..<cur])"
  proof (rule nth_equalityI)
    show "length (map t' [0..<(cur + 1) div 2]) = length (pair_level (map tree [0..<cur]))"
      by simp
  next
    fix j assume "j < length (map t' [0..<(cur + 1) div 2])"
    then have j: "j < (cur + 1) div 2" by simp
    then have "2 * j < cur" by linarith
    then show "map t' [0..<(cur + 1) div 2] ! j = pair_level (map tree [0..<cur]) ! j"
      using j t'(2) by (simp add: pair_level_nth next_node_def)
  qed
  with t'(1) show ?thesis by blast
qed

lemma build_tree_refines:
  assumes "1 \<le> cur" "cur \<le> TREE_SLOTS"
  shows "build_tree cur tree = Some (merkle_spec (map tree [0..<cur]))"
  using assms
proof (induction cur arbitrary: tree rule: less_induct)
  case (less cur)
  show ?case
  proof (cases "1 < cur")
    case False
    then have "cur = 1" using less.prems by simp
    then show ?thesis by (simp add: build_tree.simps)
  next
    case True
    have small: "cur + 1 < 2 ^ 32"
      using less.prems(2) by (simp add: TREE_SLOTS_def)
    then have nx: "((cur + 1) mod 2 ^ 32) div 2 = (cur + 1) div 2" by simp
    obtain t' where
      t': "level_loop cur [0..<(cur + 1) div 2] tree = Some t'"
          "map t' [0..<(cur + 1) div 2] = pair_level (map tree [0..<cur])"
      using level_loop_pair_level [OF less.prems(2)] by blast
    have "(cur + 1) div 2 < cur" "1 \<le> (cur + 1) div 2" "(cur + 1) div 2 \<le> TREE_SLOTS"
      using True less.prems(2) by simp_all
    then have "build_tree ((cur + 1) div 2) t' = Some (merkle_spec (map t' [0..<(cur + 1) div 2]))"
      using less.IH by blast
    moreover have "merkle_spec (map tree [0..<cur]) = merkle_spec (pair_level (map tree [0..<cur]))"
      using True by (intro merkle_spec_step) simp
    ultimately show ?thesis
      using True t' nx by (subst build_tree.simps) (simp add: Let_def)
  qed
qed

lemma ct_merkle_root_general:
  assumes "unat count \<le> TREE_SLOTS"
  shows "ct_merkle_root scratch leaves count =
     Some (merkle_spec (map (\<lambda>j. if j < LEAF_COPY_LIMIT then leaves j else scratch j)
                            [0..<unat count]))"
proof -
  have "unat count = 0 \<or> unat count = 1 \<or> 1 < unat count" by linarith
  then consider "count = 0" | "count = 1" | "1 < unat count"
    by (auto simp: word_unat_eq_iff)
  then show ?thesis
  proof cases
    case 1
    then show ?thesis by (simp add: ct_merkle_root_def)
  next
    case 2
    then show ?thesis by (simp add: ct_merkle_root_def LEAF_COPY_LIMIT_def)
  next
    case 3
    then have ne: "count \<noteq> 0" "count \<noteq> 1" by auto
    have m: "map (copy_leaves scratch leaves (unat count)) [0..<unat count] =
          map (\<lambda>j. if j < LEAF_COPY_LIMIT then leaves j else scratch j) [0..<unat count]"
      by (simp add: copy_leaves_apply)
    have b: "build_tree (unat count) (copy_leaves scratch leaves (unat count)) =
          Some (merkle_spec (map (copy_leaves scratch leaves (unat count)) [0..<unat count]))"
      using 3 assms by (intro build_tree_refines) simp_all
    show ?thesis
      using ne by (simp only: ct_merkle_root_def if_False b m)
  qed
qed

lemma level_loop_overrun:
  "i \<in> set idxs \<Longrightarrow> TREE_SLOTS \<le> 2 * i \<Longrightarrow> level_loop cur idxs t = None"
proof (induction idxs arbitrary: t)
  case Nil
  then show ?case by simp
next
  case (Cons j js)
  show ?case
  proof (cases "j = i")
    case True
    then have "level_step cur j t = None"
      using Cons.prems(2) by (simp add: level_step_def Let_def mult.commute)
    then show ?thesis by simp
  next
    case False
    then show ?thesis using Cons by (simp split: option.splits)
  qed
qed

lemma ct_merkle_root_overrun:
  assumes "TREE_SLOTS < unat count" "count \<noteq> 0xFFFFFFFF"
  shows "ct_merkle_root scratch leaves count = None"
proof -
  have "unat count \<noteq> unat (0xFFFFFFFF :: u32)"
    using assms(2) by (simp only: word_unat_eq_iff not_False_eq_True)
  then have "unat count \<noteq> 2 ^ 32 - 1" by simp
  moreover have "unat count < 2 ^ 32" using unsigned_less [of count, where 'a = nat] by simp
  ultimately have small: "unat count + 1 < 2 ^ 32" by simp
  then have nx: "((unat count + 1) mod 2 ^ 32) div 2 = (unat count + 1) div 2" by simp
  have big: "TREE_SLOTS div 2 < (unat count + 1) div 2"
    using assms(1) by (simp add: TREE_SLOTS_def)
  have "level_loop (unat count) [0..<(unat count + 1) div 2] t = None" for t
    by (rule level_loop_overrun [of "TREE_SLOTS div 2"]) (use big in \<open>simp_all add: TREE_SLOTS_def\<close>)
  moreover have "count \<noteq> 0" "count \<noteq> 1" "1 < unat count"
    using assms(1) by (auto simp: TREE_SLOTS_def)
  ultimately show ?thesis
    using nx by (simp add: ct_merkle_root_def build_tree.simps [of "unat count"] Let_def)
qed

lemma ct_merkle_root_within_capacity:
  assumes "unat count \<le> LEAF_COPY_LIMIT"
  shows "ct_merkle_root scratch leaves count = Some (merkle_spec (map leaves [0..<unat count]))"
proof -
  have "unat count \<le> TREE_SLOTS"
    using assms by (simp add: LEAF_COPY_LIMIT_def TREE_SLOTS_def)
  moreover have "map (\<lambda>j. if j < LEAF_COPY_LIMIT then leaves j else scratch j) [0..<unat count]
      = map leaves [0..<unat count]"
    using assms by simp
  ultimately show ?thesis
    by (simp only: ct_merkle_root_general)
qed

lemma upt_0_2: "[0..<2] = [0, 1]"
  by (simp add: numeral_2_eq_2)

lemma upt_0_3: "[0..<3] = [0, 1, 2]"
  by (simp add: numeral_3_eq_3)

lemma merkle_spec_three: "merkle_spec [a, b, c] = ct_hash_internal (ct_hash_internal a b) c"
  by simp

lemma upt_0_1025: "[0..<1025] = [0..<1024] @ [1024]"
proof -
  have "(1025 :: nat) = Suc 1024" by simp
  then show ?thesis by (simp only: upt_Suc_append le0)
qed

lemma capped_leaves_1025:
  "map (\<lambda>j. if j < LEAF_COPY_LIMIT then leaves j else scratch j) [0..<1025] =
   map leaves [0..<1024] @ [scratch 1024]"
  by (simp add: upt_0_1025 LEAF_COPY_LIMIT_def)

lemma ct_merkle_root_1025:
  "ct_merkle_root scratch leaves 1025 =
   Some (merkle_spec (map leaves [0..<1024] @ [scratch 1024]))"
proof -
  have "unat (1025 :: u32) \<le> TREE_SLOTS" by (simp add: TREE_SLOTS_def)
  then have "ct_merkle_root scratch leaves 1025 =
      Some (merkle_spec (map (\<lambda>j. if j < LEAF_COPY_LIMIT then leaves j else scratch j)
                            [0..<unat (1025 :: u32)]))"
    by (rule ct_merkle_root_general)
  then show ?thesis by (simp add: capped_leaves_1025)
qed

text \<open>
  Claim C5, for at most 1024 leaves (the number \<^verbatim>\<open>ct_merkle_root\<close> copies into its
  working array): the root is the all-zero digest for no leaf, the leaf itself for one
  leaf, and otherwise the result of pairing adjacent nodes level by level, the last node
  of an odd level being carried up unchanged; for three leaves \<open>a\<close>, \<open>b\<close>, \<open>c\<close> it is
  \<open>H (H a b) c\<close>.  The content of the uninitialised working array plays no part.
\<close>

theorem ct_merkle_root_promotion:
  assumes "unat count \<le> LEAF_COPY_LIMIT"
  shows "ct_merkle_root scratch leaves count = Some (merkle_spec (map leaves [0..<unat count])) \<and>
     ct_merkle_root scratch leaves 0 = Some zero_hash \<and>
     ct_merkle_root scratch leaves 1 = Some (leaves 0) \<and>
     ct_merkle_root scratch leaves 3 =
       Some (ct_hash_internal (ct_hash_internal (leaves 0) (leaves 1)) (leaves 2))"
proof -
  have "unat (3 :: u32) \<le> LEAF_COPY_LIMIT" by (simp add: LEAF_COPY_LIMIT_def)
  then have "ct_merkle_root scratch leaves 3 = Some (merkle_spec (map leaves [0..<unat (3 :: u32)]))"
    by (rule ct_merkle_root_within_capacity)
  then have "ct_merkle_root scratch leaves 3 =
      Some (ct_hash_internal (ct_hash_internal (leaves 0) (leaves 1)) (leaves 2))"
    by (simp add: upt_0_3)
  moreover have "ct_merkle_root scratch leaves 0 = Some zero_hash"
    "ct_merkle_root scratch leaves 1 = Some (leaves 0)"
    by (simp_all add: ct_merkle_root_def)
  ultimately show ?thesis
    using ct_merkle_root_within_capacity [OF assms] by simp
qed

theorem ct_merkle_root_promotion_witness:
  "unat (2 :: u32) \<le> LEAF_COPY_LIMIT \<and>
   ct_merkle_root ex_scratch ex_leaves 2 = Some (ct_hash_internal (ex_leaves 0) (ex_leaves 1)) \<and>
   ct_merkle_root ex_scratch ex_leaves 3 =
     Some (ct_hash_internal (ct_hash_internal (ex_leaves 0) (ex_leaves 1)) (ex_leaves 2))"
  using ct_merkle_root_promotion [of 2 ex_scratch ex_leaves]
  by (simp add: LEAF_COPY_LIMIT_def upt_0_2)

subsection \<open>A tree of 1025 leaves\<close>

lemma ex_level_0: "ex_levels ! 0 = zero_hash"
  by code_simp

lemma ex_level_1: "ct_hash_internal (ex_levels ! 0) (ex_levels ! 0) = ex_levels ! Suc 0"
  by code_simp

lemma ex_level_2: "ct_hash_internal (ex_levels ! Suc 0) (ex_levels ! Suc 0) = ex_levels ! 2"
  by code_simp

lemma ex_level_3: "ct_hash_internal (ex_levels ! 2) (ex_levels ! 2) = ex_levels ! 3"
  by code_simp

lemma ex_level_4: "ct_hash_internal (ex_levels ! 3) (ex_levels ! 3) = ex_levels ! 4"
  by code_simp

lemma ex_level_5: "ct_hash_internal (ex_levels ! 4) (ex_levels ! 4) = ex_levels ! 5"
  by code_simp

lemma ex_level_6: "ct_hash_internal (ex_levels ! 5) (ex_levels ! 5) = ex_levels ! 6"
  by code_simp

lemma ex_level_7: "ct_hash_internal (ex_levels ! 6) (ex_levels ! 6) = ex_levels ! 7"
  by code_simp

lemma ex_level_8: "ct_hash_internal (ex_levels ! 7) (ex_levels ! 7) = ex_levels ! 8"
  by code_simp

lemma ex_level_9: "ct_hash_internal (ex_levels ! 8) (ex_levels ! 8) = ex_levels ! 9"
  by code_simp

lemma ex_level_10: "ct_hash_internal (ex_levels ! 9) (ex_levels ! 9) = ex_levels ! 10"
  by code_simp

lemmas ex_level_steps =
  ex_level_1 ex_level_2 ex_level_3 ex_level_4 ex_level_5
  ex_level_6 ex_level_7 ex_level_8 ex_level_9 ex_level_10

lemma equal_leaves_root_step:
  "0 < k \<Longrightarrow> equal_leaves_root k a = equal_leaves_root (k - 1) (ct_hash_internal a a)"
  by (cases k) simp_all

lemma ex_flat_root_value: "equal_leaves_root 10 zero_hash = ex_levels ! 10"
proof -
  have "equal_leaves_root 10 (ex_levels ! 0) = ex_levels ! 10"
    by (simp add: equal_leaves_root_step ex_level_steps)
  then show ?thesis by (simp only: ex_level_0)
qed

lemma ex_stale_root_value: "ct_hash_internal (ex_levels ! 10) (replicate 32 170) = ex_stale_root"
  by code_simp

lemma ex_full_root_value: "ct_hash_internal (ex_levels ! 10) (replicate 32 1) = ex_full_root"
  by code_simp

lemma pair_level_replicate:
  "pair_level (replicate (2 * n) a @ r) = replicate n (ct_hash_internal a a) @ pair_level r"
  by (induction n) simp_all

lemma merkle_spec_equal_leaves:
  "merkle_spec (replicate (2 ^ k) a @ [b]) = ct_hash_internal (equal_leaves_root k a) b"
proof (induction k arbitrary: a)
  case 0
  then show ?case by simp
next
  case (Suc k)
  have "2 \<le> length (replicate (2 ^ Suc k) a @ [b])" by simp
  then have "merkle_spec (replicate (2 ^ Suc k) a @ [b]) =
      merkle_spec (pair_level (replicate (2 * 2 ^ k) a @ [b]))"
    by (simp only: merkle_spec_step power_Suc)
  also have "\<dots> = merkle_spec (replicate (2 ^ k) (ct_hash_internal a a) @ [b])"
    by (simp only: pair_level_replicate pair_level.simps)
  also have "\<dots> = ct_hash_internal (equal_leaves_root (Suc k) a) b"
    by (simp only: Suc.IH equal_leaves_root.simps)
  finally show ?case .
qed

lemma ex_flat_leaves_1024: "map ex_flat_leaves [0..<1024] = replicate (2 ^ 10) zero_hash"
proof -
  have "map ex_flat_leaves [0..<1024] = map (\<lambda>_. zero_hash) [0..<1024]"
    by (rule map_cong) (simp_all add: ex_flat_leaves_def)
  then show ?thesis by (simp add: map_replicate_const)
qed

lemma ex_flat_roots:
  "ct_merkle_root ex_scratch ex_flat_leaves 1025 = Some ex_stale_root"
  "merkle_spec (map ex_flat_leaves [0..<1025]) = ex_full_root"
proof -
  have "ct_merkle_root ex_scratch ex_flat_leaves 1025 =
      Some (merkle_spec (replicate (2 ^ 10) zero_hash @ [ex_scratch 1024]))"
    by (simp only: ct_merkle_root_1025 ex_flat_leaves_1024)
  then show "ct_merkle_root ex_scratch ex_flat_leaves 1025 = Some ex_stale_root"
    by (simp only: merkle_spec_equal_leaves ex_flat_root_value)
       (simp add: ex_scratch_def ex_stale_root_value)
  have "map ex_flat_leaves [0..<1025] = replicate (2 ^ 10) zero_hash @ [replicate 32 1]"
    by (simp only: upt_0_1025 map_append ex_flat_leaves_1024) (simp add: ex_flat_leaves_def)
  then show "merkle_spec (map ex_flat_leaves [0..<1025]) = ex_full_root"
    by (simp only: merkle_spec_equal_leaves ex_flat_root_value ex_full_root_value)
qed

text \<open>
  Beyond 1024 leaves the claim fails.  Take 1024 all-zero leaves and a last leaf of
  bytes 1, with the working array holding bytes \<open>0xAA\<close> on entry: the root returned for
  the 1025 leaves is \<open>H (root of the first 1024) (tree[1024] as found)\<close>, which is not the
  root \<open>H (root of the first 1024) (last leaf)\<close> that pairing with promotion gives.
  With 2049 leaves the first pass reads \<^verbatim>\<open>tree[2048]\<close>, outside the array.
\<close>

theorem ct_merkle_root_beyond_capacity:
  "ct_merkle_root ex_scratch ex_flat_leaves 1025 = Some ex_stale_root \<and>
   merkle_spec (map ex_flat_leaves [0..<1025]) = ex_full_root \<and>
   ex_stale_root \<noteq> ex_full_root \<and>
   ct_merkle_root ex_scratch ex_leaves 2049 = None"
proof -
  have "TREE_SLOTS < unat (2049 :: u32)" "(2049 :: u32) \<noteq> 0xFFFFFFFF"
    by (simp_all add: TREE_SLOTS_def)
  then have "ct_merkle_root ex_scratch ex_leaves 2049 = None"
    by (rule ct_merkle_root_overrun)
  moreover have "ex_stale_root \<noteq> ex_full_root"
    by (simp add: ex_stale_root_def ex_full_root_def)
  ultimately show ?thesis
    by (simp add: ex_flat_roots)
qed

text \<open>
  Claim C9 at 1025 leaves, one more than the working array takes: \<^verbatim>\<open>ct_merkle_root\<close>
  returns a root all the same, and the same root whatever the last leaf is.  The function
  has no fault parameter through which it could report the excess.
\<close>

theorem ct_merkle_root_drops_leaf:
  "(\<exists>r. ct_merkle_root ex_scratch ex_leaves 1025 = Some r \<and>
        ct_merkle_root ex_scratch (ex_leaves(1024 := replicate 32 1)) 1025 = Some r) \<and>
   ex_leaves 1024 \<noteq> replicate 32 1"
proof -
  have "map (ex_leaves(1024 := replicate 32 1)) [0..<1024] = map ex_leaves [0..<1024]"
    by simp
  then have "ct_merkle_root ex_scratch (ex_leaves(1024 := replicate 32 1)) 1025 =
      ct_merkle_root ex_scratch ex_leaves 1025"
    by (simp only: ct_merkle_root_1025)
  moreover have "ex_leaves 1024 \<noteq> replicate 32 1"
    by (simp add: ex_leaves_def)
  ultimately show ?thesis
    by (simp add: ct_merkle_root_1025)
qed

section \<open>Batches and their Merkle commitment\<close>

lemma ex_sample_hash_value: "ct_hash_sample ex_sample = ex_sample_hash"
  by code_simp

lemma ex_padded_root_value: "ct_hash_internal ex_sample_hash zero_hash = ex_padded_root"
  by code_simp

lemma fold_fill_slot:
  "sample_hashes (fold (fill_slot ds start ep sd) [0..<n] b) =
     (\<lambda>j. if j < n
          then ct_hash_sample (samples_ds ds
                 (unat (ct_permute_index (start + of_nat j) (num_samples ds) sd ep)))
          else sample_hashes b j) \<and>
   batch_size (fold (fill_slot ds start ep sd) [0..<n] b) = batch_size b \<and>
   batch_index (fold (fill_slot ds start ep sd) [0..<n] b) = batch_index b"
  by (induction n) (auto simp: fill_slot_def Let_def fun_eq_iff)

lemma fold_pad_slot:
  "sample_hashes (fold pad_slot [a..<n] b) =
     (\<lambda>j. if a \<le> j \<and> j < n then zero_hash else sample_hashes b j) \<and>
   batch_size (fold pad_slot [a..<n] b) = batch_size b \<and>
   batch_index (fold pad_slot [a..<n] b) = batch_index b"
  by (induction n) (auto simp: pad_slot_def fun_eq_iff)

lemma samples_in_batch_unat:
  fixes bi B N :: u32
  assumes "unat bi * unat B \<le> unat N" "unat N + unat B < 2 ^ 32"
  shows "unat (if N < bi * B + B then N - bi * B else B) = min (unat B) (unat N - unat bi * unat B)"
    and "unat (bi * B) = unat bi * unat B"
proof -
  have N: "unat N < 2 ^ 32" using unsigned_less [of N, where 'a = nat] by simp
  show m: "unat (bi * B) = unat bi * unat B"
    using assms(1) N by (simp add: unat_word_ariths)
  have a: "unat (bi * B + B) = unat bi * unat B + unat B"
    using assms by (simp add: unat_word_ariths m)
  have le: "bi * B \<le> N"
    using assms(1) by (simp add: word_le_nat_alt m)
  have s: "unat (N - bi * B) = unat N - unat bi * unat B"
    using le by (simp add: unat_sub m)
  show "unat (if N < bi * B + B then N - bi * B else B) = min (unat B) (unat N - unat bi * unat B)"
    by (auto simp: word_less_nat_alt a s)
qed

lemma ct_batch_fill_result:
  assumes "unat batch_idx * unat (batch_size batch) \<le> unat (num_samples dataset)"
    and "unat (num_samples dataset) + unat (batch_size batch) < 2 ^ 32"
    and "unat (batch_size batch) \<le> LEAF_COPY_LIMIT"
  shows "\<exists>b'. ct_batch_fill scratch batch dataset batch_idx epoch seed = Some b' \<and>
     batch_size b' = batch_size batch \<and> batch_index b' = batch_idx \<and>
     map (sample_hashes b') [0..<unat (batch_size batch)] =
       map (filled_hashes dataset (batch_idx * batch_size batch) epoch seed
              (min (unat (batch_size batch))
                   (unat (num_samples dataset) - unat batch_idx * unat (batch_size batch))))
           [0..<unat (batch_size batch)] \<and>
     batch_hash b' = merkle_spec (map (sample_hashes b') [0..<unat (batch_size batch)])"
proof -
  let ?B = "batch_size batch"
  let ?N = "num_samples dataset"
  define b1 where "b1 = batch\<lparr>batch_index := batch_idx\<rparr>"
  define start where "start = batch_idx * batch_size b1"
  define sib where "sib = (if ?N < start + batch_size b1 then ?N - start else batch_size b1)"
  define eff where "eff = min (unat ?B) (unat ?N - unat batch_idx * unat ?B)"
  define b2 where "b2 = fold (fill_slot dataset start epoch seed) [0..<unat sib] b1"
  define b3 where "b3 = fold pad_slot [unat sib..<unat (batch_size b2)] b2"
  have b1: "batch_size b1 = ?B" by (simp add: b1_def)
  have st: "start = batch_idx * ?B" by (simp add: start_def b1)
  have sib: "unat sib = eff"
    unfolding sib_def start_def eff_def b1 using assms(1,2)
    by (intro samples_in_batch_unat(1)) simp_all
  have b2: "sample_hashes b2 = (\<lambda>j. if j < eff
          then ct_hash_sample (samples_ds dataset
                 (unat (ct_permute_index (start + of_nat j) ?N seed epoch)))
          else sample_hashes b1 j)"
     "batch_size b2 = ?B" "batch_index b2 = batch_idx"
    using fold_fill_slot [of dataset start epoch seed "unat sib" b1]
    by (simp_all add: b2_def sib b1_def)
  have effB: "eff \<le> unat ?B" by (simp add: eff_def)
  have b3: "sample_hashes b3 = (\<lambda>j. if eff \<le> j \<and> j < unat ?B then zero_hash else sample_hashes b2 j)"
     "batch_size b3 = ?B" "batch_index b3 = batch_idx"
    using fold_pad_slot [of "unat sib" "unat ?B" b2] b2(2,3)
    by (simp_all add: b3_def sib)
  have m: "map (sample_hashes b3) [0..<unat ?B] =
        map (filled_hashes dataset start epoch seed eff) [0..<unat ?B]"
    using effB by (auto simp: b3(1) b2(1) filled_hashes_def)
  have "ct_hash_batch scratch b3 = Some (merkle_spec (map (sample_hashes b3) [0..<unat ?B]))"
    using assms(3) by (simp add: ct_hash_batch_def b3(2) ct_merkle_root_within_capacity)
  then have h: "ct_hash_batch scratch b3 =
      Some (merkle_spec (map (filled_hashes dataset start epoch seed eff) [0..<unat ?B]))"
    by (simp only: m)
  have fill: "ct_batch_fill scratch batch dataset batch_idx epoch seed =
      (case ct_hash_batch scratch b3 of None \<Rightarrow> None | Some h \<Rightarrow> Some (b3\<lparr>batch_hash := h\<rparr>))"
    by (simp only: ct_batch_fill_def Let_def b3_def b2_def sib_def start_def b1_def)
  define r where "r = b3\<lparr>batch_hash :=
      merkle_spec (map (filled_hashes dataset start epoch seed eff) [0..<unat ?B])\<rparr>"
  have mr: "map (sample_hashes r) [0..<unat ?B] =
        map (filled_hashes dataset start epoch seed eff) [0..<unat ?B]"
    using m by (simp add: r_def)
  have "ct_batch_fill scratch batch dataset batch_idx epoch seed = Some r"
    using h fill by (simp add: r_def)
  moreover have "batch_size r = ?B" "batch_index r = batch_idx"
    by (simp_all add: r_def b3)
  moreover have "batch_hash r = merkle_spec (map (sample_hashes r) [0..<unat ?B])"
    by (simp only: mr) (simp add: r_def)
  ultimately show ?thesis
    using mr unfolding st eff_def by blast
qed

lemma ex_fill:
  "\<exists>b. ct_batch_fill ex_scratch ex_batch2 ex_dataset 0 0 0 = Some b \<and>
     sample_hashes b 0 = ex_sample_hash \<and> sample_hashes b 1 = zero_hash \<and>
     batch_hash b = ex_padded_root"
proof -
  have "\<exists>b'. ct_batch_fill ex_scratch ex_batch2 ex_dataset 0 0 0 = Some b' \<and>
     batch_size b' = batch_size ex_batch2 \<and> batch_index b' = 0 \<and>
     map (sample_hashes b') [0..<unat (batch_size ex_batch2)] =
       map (filled_hashes ex_dataset (0 * batch_size ex_batch2) 0 0
              (min (unat (batch_size ex_batch2))
                   (unat (num_samples ex_dataset) - unat (0 :: u32) * unat (batch_size ex_batch2))))
           [0..<unat (batch_size ex_batch2)] \<and>
     batch_hash b' = merkle_spec (map (sample_hashes b') [0..<unat (batch_size ex_batch2)])"
    by (rule ct_batch_fill_result) (simp_all add: ex_batch2_def ex_dataset_def LEAF_COPY_LIMIT_def)
  then obtain b where b: "ct_batch_fill ex_scratch ex_batch2 ex_dataset 0 0 0 = Some b"
      "sample_hashes b 0 = ct_hash_sample ex_sample" "sample_hashes b 1 = zero_hash"
      "batch_hash b = merkle_spec [sample_hashes b 0, sample_hashes b 1]"
    by (auto simp: ex_batch2_def ex_dataset_def upt_0_2 filled_hashes_def ct_permute_index_def)
  then show ?thesis
    by (simp add: ex_sample_hash_value ex_padded_root_value)
qed

text \<open>
  Claim C4, as the code has it.  When \<open>batch_idx * B \<le> N\<close> (both without wrap-around)
  and \<open>B \<le> 1024\<close>, \<^verbatim>\<open>ct_batch_fill\<close> returns a batch of the declared size \<open>B\<close> whose
  \<open>batch_hash\<close> is the Merkle root of all \<open>B\<close> entries of \<open>sample_hashes\<close>: the first
  \<open>effective = min B (N - batch_idx * B)\<close> entries are the hashes of the samples picked by
  the permutation, the entries from \<open>effective\<close> up to \<open>B\<close> are the all-zero padding, and
  the padding is part of what is hashed.
\<close>

theorem ct_batch_fill_hashes_padding:
  assumes "unat batch_idx * unat (batch_size batch) \<le> unat (num_samples dataset)"
    and "unat (num_samples dataset) + unat (batch_size batch) < 2 ^ 32"
    and "unat (batch_size batch) \<le> LEAF_COPY_LIMIT"
  shows "\<exists>b'. ct_batch_fill scratch batch dataset batch_idx epoch seed = Some b' \<and>
     batch_size b' = batch_size batch \<and> batch_index b' = batch_idx \<and>
     batch_hash b' =
       merkle_spec (map (filled_hashes dataset (batch_idx * batch_size batch) epoch seed
                      (min (unat (batch_size batch))
                           (unat (num_samples dataset) - unat batch_idx * unat (batch_size batch))))
                    [0..<unat (batch_size batch)])"
proof -
  let ?hs = "map (filled_hashes dataset (batch_idx * batch_size batch) epoch seed
                      (min (unat (batch_size batch))
                           (unat (num_samples dataset) - unat batch_idx * unat (batch_size batch))))
                    [0..<unat (batch_size batch)]"
  obtain b' where b': "ct_batch_fill scratch batch dataset batch_idx epoch seed = Some b'"
      "batch_size b' = batch_size batch" "batch_index b' = batch_idx"
    and m: "map (sample_hashes b') [0..<unat (batch_size batch)] = ?hs"
    and h: "batch_hash b' = merkle_spec (map (sample_hashes b') [0..<unat (batch_size batch)])"
    using ct_batch_fill_result [OF assms, of scratch epoch seed] by blast
  from h have "batch_hash b' = merkle_spec ?hs"
    by (simp only: m)
  with b' show ?thesis by blast
qed

theorem ct_batch_fill_hashes_padding_witness:
  "unat (0 :: u32) * unat (batch_size ex_batch2) \<le> unat (num_samples ex_dataset) \<and>
   unat (num_samples ex_dataset) + unat (batch_size ex_batch2) < 2 ^ 32 \<and>
   unat (batch_size ex_batch2) \<le> LEAF_COPY_LIMIT \<and>
   (\<exists>b'. ct_batch_fill ex_scratch ex_batch2 ex_dataset 0 0 0 = Some b' \<and>
      batch_size b' = 2 \<and> batch_index b' = 0 \<and>
      batch_hash b' = ct_hash_internal (ct_hash_sample ex_sample) zero_hash)"
  using ct_batch_fill_hashes_padding [of 0 ex_batch2 ex_dataset ex_scratch 0 0]
  by (simp add: ex_batch2_def ex_dataset_def LEAF_COPY_LIMIT_def upt_0_2 filled_hashes_def
        ct_permute_index_def)

text \<open>
  A dataset of one sample and a batch of declared size 2: \<open>effective = 1\<close>.  The stored
  \<open>batch_hash\<close> is the root over both slots, \<open>H (hash of the sample) (zero padding)\<close>,
  while the Merkle root of the first \<open>effective\<close> entries alone is the sample's hash.
\<close>

theorem batch_hash_covers_padding:
  "\<exists>b. ct_batch_fill ex_scratch ex_batch2 ex_dataset 0 0 0 = Some b \<and>
     batch_hash b = ex_padded_root \<and>
     ct_merkle_root ex_scratch (sample_hashes b) 1 = Some ex_sample_hash \<and>
     ct_merkle_root ex_scratch (sample_hashes b) 2 = Some ex_padded_root \<and>
     ex_padded_root \<noteq> ex_sample_hash"
proof -
  obtain b where b: "ct_batch_fill ex_scratch ex_batch2 ex_dataset 0 0 0 = Some b"
      "sample_hashes b 0 = ex_sample_hash" "sample_hashes b 1 = zero_hash"
      "batch_hash b = ex_padded_root"
    using ex_fill by blast
  have "unat (2 :: u32) \<le> LEAF_COPY_LIMIT" by (simp add: LEAF_COPY_LIMIT_def)
  then have "ct_merkle_root ex_scratch (sample_hashes b) 2 =
      Some (merkle_spec (map (sample_hashes b) [0..<unat (2 :: u32)]))"
    by (rule ct_merkle_root_within_capacity)
  moreover have "sample_hashes b (Suc 0) = zero_hash"
    using b(3) by simp
  ultimately have "ct_merkle_root ex_scratch (sample_hashes b) 2 = Some ex_padded_root"
    by (simp add: upt_0_2 b ex_padded_root_value)
  moreover have "ct_merkle_root ex_scratch (sample_hashes b) 1 = Some ex_sample_hash"
    by (simp add: ct_merkle_root_def b)
  moreover have "ex_padded_root \<noteq> ex_sample_hash"
    by (simp add: ex_padded_root_def ex_sample_hash_def)
  ultimately show ?thesis
    using b by blast
qed

lemma ct_batch_verify_within_capacity:
  assumes "unat (batch_size batch) \<le> LEAF_COPY_LIMIT"
  shows "ct_batch_verify scratch batch =
     Some (if merkle_spec (map (sample_hashes batch) [0..<unat (batch_size batch)]) =
              batch_hash batch then 1 else 0)"
  using ct_merkle_root_within_capacity [OF assms, of scratch "sample_hashes batch"]
  by (simp add: ct_batch_verify_def ct_hash_batch_def)

text \<open>
  Claim C8, as the code has it.  For a batch of at most 1024 slots \<^verbatim>\<open>ct_batch_verify\<close>
  returns 1 when the Merkle root recomputed from all \<open>batch_size\<close> entries of
  \<open>sample_hashes\<close> equals the stored \<open>batch_hash\<close> and 0 otherwise; the outcome is reported
  by the return value alone, and the caller's fault flags are what they were.
\<close>

theorem ct_batch_verify_iff_root_matches:
  assumes "unat (batch_size batch) \<le> LEAF_COPY_LIMIT"
  shows "ct_batch_verify scratch batch =
       Some (if merkle_spec (map (sample_hashes batch) [0..<unat (batch_size batch)]) =
                batch_hash batch then 1 else 0) \<and>
     map_option snd (verify_call scratch batch faults) = Some faults"
  using ct_batch_verify_within_capacity [OF assms, of scratch]
  by (simp add: verify_call_def)

theorem ct_batch_verify_iff_root_matches_witness:
  "unat (batch_size ex_bad_batch) \<le> LEAF_COPY_LIMIT \<and>
   ct_batch_verify ex_scratch ex_bad_batch = Some 0 \<and>
   ct_batch_verify ex_scratch (ex_bad_batch\<lparr>batch_hash := zero_hash\<rparr>) = Some 1 \<and>
   map_option snd (verify_call ex_scratch ex_bad_batch f0) = Some f0"
  using ct_batch_verify_iff_root_matches [of ex_bad_batch ex_scratch f0]
    ct_batch_verify_iff_root_matches [of "ex_bad_batch\<lparr>batch_hash := zero_hash\<rparr>" ex_scratch f0]
  by (simp add: ex_bad_batch_def LEAF_COPY_LIMIT_def zero_hash_def)

text \<open>
  A batch whose stored hash does not match: the call returns 0 and no fault flag is set.
  \<^verbatim>\<open>ct_fault_flags_t\<close> has no flag for a hash mismatch.
\<close>

theorem ct_batch_verify_sets_no_flag:
  "verify_call ex_scratch ex_bad_batch f0 = Some (0, f0) \<and> \<not> ct_has_fault f0"
  by (simp add: verify_call_def ct_batch_verify_def ct_hash_batch_def ct_merkle_root_def
        ex_bad_batch_def zero_hash_def f0_def ct_has_fault_def)

section \<open>The index permutation on two samples\<close>

text \<open>
  The round function at seed 5, epoch 0, for both values of the right half and the four
  rounds: the first four digest bytes, read as a little-endian word.
\<close>

lemma feistel_round_0_0: "feistel_round 0 5 0 0 = 3197301303"
  by code_simp

lemma feistel_round_0_1: "feistel_round 0 5 0 1 = 157018064"
  by code_simp

lemma feistel_round_0_2: "feistel_round 0 5 0 2 = 791845858"
  by code_simp

lemma feistel_round_0_3: "feistel_round 0 5 0 3 = 949447810"
  by code_simp

lemma feistel_round_1_0: "feistel_round 1 5 0 0 = 1197055976"
  by code_simp

lemma feistel_round_1_1: "feistel_round 1 5 0 1 = 3027205765"
  by code_simp

lemma feistel_round_1_2: "feistel_round 1 5 0 2 = 2118876129"
  by code_simp

lemma feistel_round_1_3: "feistel_round 1 5 0 3 = 3304721440"
  by code_simp

lemmas feistel_rounds_5_0 =
  feistel_round_0_0 feistel_round_0_1 feistel_round_0_2 feistel_round_0_3
  feistel_round_1_0 feistel_round_1_1 feistel_round_1_2 feistel_round_1_3

lemma feistel_network_5_0:
  "feistel_network 5 0 (Suc 0) 1 0 = 2" "feistel_network 5 0 (Suc 0) 1 1 = 0"
  "feistel_network 5 0 (Suc 0) 1 2 = 3" "feistel_network 5 0 (Suc 0) 1 3 = 1"
  by (simp_all add: feistel_network_def feistel_step_def feistel_rounds_5_0)

lemma ceil_log2_2: "ceil_log2 2 = 1"
  by (simp add: ceil_log2_def word_le_nat_alt
        ceil_log2_loop.simps [of 0 1] ceil_log2_loop.simps [of 1 0])

lemma walk_index_2:
  "walk_index i 2 5 0 = cycle_walk 2 5 0 1 1 2 i"
  by (simp add: walk_index_def ceil_log2_2)

lemma cycle_walk_2_steps:
  "cycle_walk 2 sd ep hb hm N i =
     (let i1 = feistel_network sd ep hb hm i in
      if i1 < N then Some i1
      else let i2 = feistel_network sd ep hb hm i1 in if i2 < N then Some i2 else None)"
  by (simp add: numeral_2_eq_2 Let_def)

lemma cycle_walk_3_steps:
  "cycle_walk 3 sd ep hb hm N i =
     (let i1 = feistel_network sd ep hb hm i in
      if i1 < N then Some i1 else cycle_walk 2 sd ep hb hm N i1)"
  by (simp add: numeral_3_eq_3 numeral_2_eq_2 Let_def)

text \<open>
  Claim C1 at \<open>N = 2\<close>, seed 5, epoch 0.  Here \<open>k = 1\<close>, so the loop of
  \<^verbatim>\<open>ct_permute_index\<close> may run \<open>range = 2\<close> times, while the Feistel network permutes
  the four values of two 1-bit halves: \<open>0 \<mapsto> 2 \<mapsto> 3 \<mapsto> 1 \<mapsto> 0\<close>.  From index 0 the
  walk is at 2 and then at 3 when the bound is reached, the function falls back to
  \<open>0 mod 2\<close>, and both indices are sent to 0; one more step would have reached 1.
\<close>

theorem ct_permute_index_collision:
  "ct_permute_index 0 2 5 0 = 0 \<and> ct_permute_index 1 2 5 0 = 0 \<and>
   walk_index 0 2 5 0 = None \<and> cycle_walk 3 5 0 1 1 2 0 = Some 1"
  by (simp add: ct_permute_index_def walk_index_2 cycle_walk_3_steps cycle_walk_2_steps
        feistel_network_5_0 word_le_nat_alt word_less_nat_alt)

section \<open>Batch-level transformations and the stored commitment\<close>

























end
